theory Spec2Isabelle
  imports Main "HOL-Library.Code_Target_Nat"
begin

section \<open>Python strings\<close>

text \<open>
  A Python \<^verbatim>\<open>str\<close> is a sequence of Unicode code points. Code points are natural
  numbers here, so that the strings produced by \<^verbatim>\<open>\uXXXX\<close> escapes of a JSON document
  are values of the same type as the input text. \<open>ustr\<close> embeds an ASCII literal.
\<close>

type_synonym codepoint = nat
type_synonym pystr = "codepoint list"

definition ustr :: "string \<Rightarrow> pystr" where
  "ustr s = map of_char s"

text \<open>\<^verbatim>\<open>str(n)\<close> for a non-negative integer: its decimal digits.\<close>

fun str_nat :: "nat \<Rightarrow> pystr" where
  "str_nat n = (if n < 10 then [0x30 + n] else str_nat (n div 10) @ [0x30 + n mod 10])"

declare str_nat.simps [simp del]

text \<open>
  \<^verbatim>\<open>str.isspace\<close> on one code point. The class \<^verbatim>\<open>\s\<close> of \<^verbatim>\<open>re\<close> on a \<^verbatim>\<open>str\<close> pattern and
  \<^verbatim>\<open>str.strip()\<close> both use this set.
\<close>

definition is_space :: "codepoint \<Rightarrow> bool" where
  "is_space c \<longleftrightarrow>
     (0x09 \<le> c \<and> c \<le> 0x0D) \<or> (0x1C \<le> c \<and> c \<le> 0x20) \<or> c = 0x85 \<or> c = 0xA0 \<or>
     c = 0x1680 \<or> (0x2000 \<le> c \<and> c \<le> 0x200A) \<or> c = 0x2028 \<or> c = 0x2029 \<or>
     c = 0x202F \<or> c = 0x205F \<or> c = 0x3000"

definition strip :: "pystr \<Rightarrow> pystr" where
  "strip s = rev (dropWhile is_space (rev (dropWhile is_space s)))"

text \<open>\<^verbatim>\<open>k in s\<close> for two strings: \<open>k\<close> occurs in \<open>s\<close> as a contiguous substring.\<close>

fun is_substring :: "pystr \<Rightarrow> pystr \<Rightarrow> bool" where
  "is_substring k [] = (k = [])"
| "is_substring k (c # cs) = (take (length k) (c # cs) = k \<or> is_substring k cs)"

section \<open>Python values and exceptions\<close>

text \<open>
  The values \<^verbatim>\<open>json.loads\<close> produces, which are also the values a caller can pass to
  \<^verbatim>\<open>validate_policy\<close> directly: \<^verbatim>\<open>None\<close>, \<^verbatim>\<open>bool\<close>, \<^verbatim>\<open>int\<close>, \<^verbatim>\<open>float\<close>, \<^verbatim>\<open>str\<close>,
  \<^verbatim>\<open>list\<close> and \<^verbatim>\<open>dict\<close> with string keys. A dict is an association list in insertion
  order. A float is kept as the literal it was read from: the validator never looks
  inside a number.
\<close>

datatype pyobj =
    PNone
  | PBool bool
  | PInt int
  | PFloat pystr
  | PStr pystr
  | PList "pyobj list"
  | PDict "(pystr \<times> pyobj) list"

text \<open>
  The exceptions the modelled code can raise. \<open>JSONDecodeError\<close> is the failure of the
  decoder on a malformed document; \<open>ValueError\<close> and \<open>RecursionError\<close> are the two other
  failures of \<^verbatim>\<open>json.loads\<close> (an integer literal with more digits than the interpreter
  converts, containers nested deeper than the interpreter's stack permits);
  \<open>TypeError\<close> and \<open>KeyError\<close> come from \<^verbatim>\<open>in\<close> and from indexing. All but the first
  carry the text that \<^verbatim>\<open>str(e)\<close> returns (the wording of CPython 3.11 and later).
\<close>

datatype error =
    JSONDecodeError
  | ValueError pystr
  | RecursionError pystr
  | TypeError pystr
  | KeyError pystr

text \<open>Sequencing of steps that may raise: the first exception ends the block.\<close>

definition and_then :: "error + 'a \<Rightarrow> ('a \<Rightarrow> error + 'b) \<Rightarrow> error + 'b" where
  "and_then m f = (case m of Inl e \<Rightarrow> Inl e | Inr x \<Rightarrow> f x)"

fun type_name :: "pyobj \<Rightarrow> pystr" where
  "type_name PNone = ustr ''NoneType''"
| "type_name (PBool b) = ustr ''bool''"
| "type_name (PInt n) = ustr ''int''"
| "type_name (PFloat f) = ustr ''float''"
| "type_name (PStr s) = ustr ''str''"
| "type_name (PList xs) = ustr ''list''"
| "type_name (PDict kvs) = ustr ''dict''"

text \<open>
  \<^verbatim>\<open>key in obj\<close> with a string on the left: key membership in a dict, element
  equality in a list, substring test in a string, \<^verbatim>\<open>TypeError\<close> on anything else.
\<close>

fun py_in :: "pystr \<Rightarrow> pyobj \<Rightarrow> error + bool" where
  "py_in k (PDict kvs) = Inr (k \<in> set (map fst kvs))"
| "py_in k (PList xs) = Inr (PStr k \<in> set xs)"
| "py_in k (PStr s) = Inr (is_substring k s)"
| "py_in k v = Inl (TypeError (ustr ''argument of type '' @ [0x27] @ type_name v @ [0x27] @ ustr '' is not iterable''))"

text \<open>\<^verbatim>\<open>obj[key]\<close> with a string key.\<close>

fun py_getitem :: "pyobj \<Rightarrow> pystr \<Rightarrow> error + pyobj" where
  "py_getitem (PDict kvs) k =
     (case map_of kvs k of
        None \<Rightarrow> Inl (KeyError ([0x27] @ k @ [0x27]))
      | Some v \<Rightarrow> Inr v)"
| "py_getitem (PList xs) k = Inl (TypeError (ustr ''list indices must be integers or slices, not str''))"
| "py_getitem (PStr s) k = Inl (TypeError (ustr ''string indices must be integers, not '' @ [0x27] @ ustr ''str'' @ [0x27]))"
| "py_getitem v k = Inl (TypeError ([0x27] @ type_name v @ [0x27] @ ustr '' object is not subscriptable''))"

text \<open>\<^verbatim>\<open>x if isinstance(x, list) else [x]\<close>\<close>

fun as_list :: "pyobj \<Rightarrow> pyobj list" where
  "as_list (PList xs) = xs"
| "as_list v = [v]"

section \<open>\<^verbatim>\<open>json.loads\<close>\<close>

text \<open>
  The decoder of the standard library, with its default settings (strict strings, no
  hooks), following \<^verbatim>\<open>json/decoder.py\<close> and \<^verbatim>\<open>json/scanner.py\<close>: \<open>scanstring\<close>,
  \<open>match_number\<close> (the regular expression \<^verbatim>\<open>NUMBER_RE\<close>), \<open>scan_once\<close>, the loops of
  \<^verbatim>\<open>JSONArray\<close> and \<^verbatim>\<open>JSONObject\<close>, and \<^verbatim>\<open>JSONDecoder.decode\<close>. Every function takes the
  text from the current index on and returns the value read with the text that follows
  it.

  Two limits of the interpreter decide whether \<^verbatim>\<open>json.loads\<close> raises something else than
  \<^verbatim>\<open>JSONDecodeError\<close>. \<open>int_max_str_digits\<close> is \<^verbatim>\<open>sys.get_int_max_str_digits()\<close>: \<^verbatim>\<open>int\<close>
  refuses a literal with more digits with a \<^verbatim>\<open>ValueError\<close> (4300 by default, 0 for no
  limit, as in the interpreters before the limit existed). \<open>recursion_budget\<close> is the
  number of nested arrays and objects the decoder can still enter where \<^verbatim>\<open>json.loads\<close> is
  called: the recursion limit less the depth of the stack there; entering one more
  raises \<^verbatim>\<open>RecursionError\<close>. Both are parameters of the model.
\<close>

record limits =
  int_max_str_digits :: nat
  recursion_budget :: nat

text \<open>The defaults of CPython, for a caller some hundred frames deep.\<close>

definition default_limits :: limits where
  "default_limits = \<lparr> int_max_str_digits = 4300, recursion_budget = 900 \<rparr>"

text \<open>\<^verbatim>\<open>WHITESPACE = re.compile(r'[ \t\n\r]*')\<close>\<close>

definition is_ws :: "codepoint \<Rightarrow> bool" where
  "is_ws c \<longleftrightarrow> c = 0x20 \<or> c = 0x09 \<or> c = 0x0A \<or> c = 0x0D"

definition skip_ws :: "pystr \<Rightarrow> pystr" where
  "skip_ws s = dropWhile is_ws s"

definition hexval :: "codepoint \<Rightarrow> nat option" where
  "hexval c =
     (if 0x30 \<le> c \<and> c \<le> 0x39 then Some (c - 0x30)
      else if 0x61 \<le> c \<and> c \<le> 0x66 then Some (c - 0x61 + 10)
      else if 0x41 \<le> c \<and> c \<le> 0x46 then Some (c - 0x41 + 10)
      else None)"

text \<open>The four hexadecimal digits after \<^verbatim>\<open>\u\<close>.\<close>

definition decode_uXXXX :: "pystr \<Rightarrow> nat option" where
  "decode_uXXXX s =
     (case map hexval (take 4 s) of
        [Some a, Some b, Some c, Some d] \<Rightarrow> Some (((a * 16 + b) * 16 + c) * 16 + d)
      | _ \<Rightarrow> None)"

text \<open>The table \<^verbatim>\<open>BACKSLASH\<close> of one-letter escapes.\<close>

definition backslash :: "codepoint \<Rightarrow> codepoint option" where
  "backslash e =
     (if e = 0x22 then Some 0x22
      else if e = 0x5C then Some 0x5C
      else if e = 0x2F then Some 0x2F
      else if e = 0x62 then Some 0x08
      else if e = 0x66 then Some 0x0C
      else if e = 0x6E then Some 0x0A
      else if e = 0x72 then Some 0x0D
      else if e = 0x74 then Some 0x09
      else None)"

text \<open>
  \<open>scanstring\<close> starts after the opening quote. A quote (\<open>0x22\<close>) ends the string, a
  backslash (\<open>0x5C\<close>) starts an escape, a control character is refused; a high
  surrogate followed by an escaped low surrogate is joined into one code point.
\<close>

fun scanstring :: "pystr \<Rightarrow> (pystr \<times> pystr) option" where
  "scanstring [] = None"
| "scanstring (c # cs) =
     (if c = 0x22 then Some ([], cs)
      else if c = 0x5C then
        (case cs of
           [] \<Rightarrow> None
         | e # es \<Rightarrow>
             if e = 0x75 then
               (case decode_uXXXX es of
                  None \<Rightarrow> None
                | Some uni \<Rightarrow>
                    (case (if 0xD800 \<le> uni \<and> uni \<le> 0xDBFF \<and> take 2 (drop 4 es) = [0x5C, 0x75]
                           then decode_uXXXX (drop 6 es) else None) of
                       None \<Rightarrow> map_option (\<lambda>(str, r). (uni # str, r)) (scanstring (drop 4 es))
                     | Some uni2 \<Rightarrow>
                         if 0xDC00 \<le> uni2 \<and> uni2 \<le> 0xDFFF
                         then map_option
                                (\<lambda>(str, r). ((0x10000 + (uni - 0xD800) * 0x400 + (uni2 - 0xDC00)) # str, r))
                                (scanstring (drop 10 es))
                         else map_option (\<lambda>(str, r). (uni # str, r)) (scanstring (drop 4 es))))
             else
               (case backslash e of
                  None \<Rightarrow> None
                | Some ch \<Rightarrow> map_option (\<lambda>(str, r). (ch # str, r)) (scanstring es)))
      else if c < 0x20 then None
      else map_option (\<lambda>(str, r). (c # str, r)) (scanstring cs))"

definition is_digit :: "codepoint \<Rightarrow> bool" where
  "is_digit c \<longleftrightarrow> 0x30 \<le> c \<and> c \<le> 0x39"

definition int_of_digits :: "pystr \<Rightarrow> int" where
  "int_of_digits ds = foldl (\<lambda>a d. 10 * a + int (d - 0x30)) 0 ds"

text \<open>
  \<^verbatim>\<open>NUMBER_RE = (-?(?:0|[1-9]\d*))(\.\d+)?([eE][-+]?\d+)?\<close> matched at the start of the
  text: the three groups of the match and the text after it.
\<close>

definition match_number :: "pystr \<Rightarrow> ((pystr \<times> pystr \<times> pystr) \<times> pystr) option" where
  "match_number s =
     (let sign = takeWhile (\<lambda>c. c = 0x2D) (take 1 s);
          s1 = drop (length sign) s;
          intpart = (case s1 of
                       [] \<Rightarrow> []
                     | d # ds \<Rightarrow> if d = 0x30 then [d]
                                else if is_digit d then d # takeWhile is_digit ds
                                else []);
          s2 = drop (length intpart) s1;
          frac = (case s2 of
                    p # f # fs \<Rightarrow> if p = 0x2E \<and> is_digit f then p # f # takeWhile is_digit fs else []
                  | _ \<Rightarrow> []);
          s3 = drop (length frac) s2;
          esign = (case s3 of
                     e # g # gs \<Rightarrow> if (e = 0x65 \<or> e = 0x45) \<and> (g = 0x2B \<or> g = 0x2D) then [e, g]
                                   else if e = 0x65 \<or> e = 0x45 then [e] else []
                   | [e] \<Rightarrow> if e = 0x65 \<or> e = 0x45 then [e] else []
                   | [] \<Rightarrow> []);
          edigits = takeWhile is_digit (drop (length esign) s3);
          exp = (if esign = [] \<or> edigits = [] then [] else esign @ edigits);
          s4 = drop (length exp) s3
      in if intpart = [] then None
         else Some ((sign @ intpart, frac, exp), s4))"

text \<open>
  \<^verbatim>\<open>int(integer)\<close> on the first group. The limit counts the digits, not the sign, and
  \<^verbatim>\<open>int\<close> raises when it is exceeded.
\<close>

definition parse_int :: "limits \<Rightarrow> pystr \<Rightarrow> error + pyobj" where
  "parse_int lim integer =
     (let digits = dropWhile (\<lambda>c. c = 0x2D) integer in
      if 0 < int_max_str_digits lim \<and> int_max_str_digits lim < length digits then
        Inl (ValueError
          (ustr ''Exceeds the limit ('' @ str_nat (int_max_str_digits lim) @
           ustr '' digits) for integer string conversion: value has '' @ str_nat (length digits) @
           ustr '' digits; use sys.set_int_max_str_digits() to increase the limit''))
      else
        Inr (PInt (if take 1 integer = [0x2D] then - int_of_digits digits else int_of_digits digits)))"

text \<open>
  The value of a matched number: \<^verbatim>\<open>float\<close> of the whole literal when a fraction or an
  exponent matched (a float has no limit on its digits), \<^verbatim>\<open>int\<close> of the first group
  otherwise.
\<close>

fun parse_number :: "limits \<Rightarrow> pystr \<times> pystr \<times> pystr \<Rightarrow> error + pyobj" where
  "parse_number lim (integer, frac, exp) =
     (if frac \<noteq> [] \<or> exp \<noteq> [] then Inr (PFloat (integer @ frac @ exp))
      else parse_int lim integer)"

text \<open>
  \<^verbatim>\<open>dict(pairs)\<close>: a key that occurs again keeps its place and takes the later value.
\<close>

fun dict_set :: "pystr \<Rightarrow> pyobj \<Rightarrow> (pystr \<times> pyobj) list \<Rightarrow> (pystr \<times> pyobj) list" where
  "dict_set k v [] = [(k, v)]"
| "dict_set k v ((k', v') # kvs) = (if k' = k then (k, v) # kvs else (k', v') # dict_set k v kvs)"

definition dict_of_pairs :: "(pystr \<times> pyobj) list \<Rightarrow> (pystr \<times> pyobj) list" where
  "dict_of_pairs pairs = foldl (\<lambda>d (k, v). dict_set k v d) [] pairs"

text \<open>
  \<open>scan_once\<close> reads one value; \<open>d\<close> is the number of nested containers it can still
  enter. \<open>JSONArray_loop\<close> is the \<^verbatim>\<open>while True\<close> loop of \<^verbatim>\<open>JSONArray\<close>, entered at the first
  character of an element; \<open>JSONObject_loop\<close> is the loop of \<^verbatim>\<open>JSONObject\<close>, entered after
  the opening quote of a key. The two comparisons of lengths before the loops' recursive
  calls make the recursion well-founded; they always hold (\<open>JSONArray_loop_unguarded\<close>
  and \<open>JSONObject_loop_unguarded\<close> below), so the loops never end there.
\<close>

function (sequential) scan_once :: "limits \<Rightarrow> nat \<Rightarrow> pystr \<Rightarrow> error + (pyobj \<times> pystr)"
  and JSONArray_loop :: "limits \<Rightarrow> nat \<Rightarrow> pystr \<Rightarrow> error + (pyobj list \<times> pystr)"
  and JSONObject_loop :: "limits \<Rightarrow> nat \<Rightarrow> pystr \<Rightarrow> error + ((pystr \<times> pyobj) list \<times> pystr)"
where
  "scan_once lim d [] = Inl JSONDecodeError"
| "scan_once lim d (c # cs) =
     (if c = 0x22 then
        (case scanstring cs of
           None \<Rightarrow> Inl JSONDecodeError
         | Some (str, r) \<Rightarrow> Inr (PStr str, r))
      else if c = 0x7B then
        (if d = 0 then
           Inl (RecursionError
             (ustr ''maximum recursion depth exceeded while decoding a JSON object from a unicode string''))
         else
           (case skip_ws cs of
              [] \<Rightarrow> Inl JSONDecodeError
            | n # r \<Rightarrow>
                if n = 0x7D then Inr (PDict [], r)
                else if n = 0x22 then
                  (case JSONObject_loop lim (d - 1) r of
                     Inl e \<Rightarrow> Inl e
                   | Inr (pairs, r') \<Rightarrow> Inr (PDict (dict_of_pairs pairs), r'))
                else Inl JSONDecodeError))
      else if c = 0x5B then
        (if d = 0 then
           Inl (RecursionError
             (ustr ''maximum recursion depth exceeded while decoding a JSON array from a unicode string''))
         else
           (case skip_ws cs of
              [] \<Rightarrow> Inl JSONDecodeError
            | n # r \<Rightarrow>
                if n = 0x5D then Inr (PList [], r)
                else
                  (case JSONArray_loop lim (d - 1) (n # r) of
                     Inl e \<Rightarrow> Inl e
                   | Inr (vals, r') \<Rightarrow> Inr (PList vals, r'))))
      else if take 4 (c # cs) = ustr ''null'' then Inr (PNone, drop 4 (c # cs))
      else if take 4 (c # cs) = ustr ''true'' then Inr (PBool True, drop 4 (c # cs))
      else if take 5 (c # cs) = ustr ''false'' then Inr (PBool False, drop 5 (c # cs))
      else
        (case match_number (c # cs) of
           Some (groups, r) \<Rightarrow>
             (case parse_number lim groups of
                Inl e \<Rightarrow> Inl e
              | Inr v \<Rightarrow> Inr (v, r))
         | None \<Rightarrow>
             if take 3 (c # cs) = ustr ''NaN'' then Inr (PFloat (ustr ''NaN''), drop 3 (c # cs))
             else if take 8 (c # cs) = ustr ''Infinity''
               then Inr (PFloat (ustr ''Infinity''), drop 8 (c # cs))
             else if take 9 (c # cs) = ustr ''-Infinity''
               then Inr (PFloat (ustr ''-Infinity''), drop 9 (c # cs))
             else Inl JSONDecodeError))"
| "JSONArray_loop lim d s =
     (case scan_once lim d s of
        Inl e \<Rightarrow> Inl e
      | Inr (v, s1) \<Rightarrow>
          (case skip_ws s1 of
             [] \<Rightarrow> Inl JSONDecodeError
           | n # s2 \<Rightarrow>
               if n = 0x5D then Inr ([v], s2)
               else if n = 0x2C then
                 (if length (skip_ws s2) < length s
                  then (case JSONArray_loop lim d (skip_ws s2) of
                          Inl e \<Rightarrow> Inl e
                        | Inr (vals, r) \<Rightarrow> Inr (v # vals, r))
                  else Inl JSONDecodeError)
               else Inl JSONDecodeError))"
| "JSONObject_loop lim d s =
     (case scanstring s of
        None \<Rightarrow> Inl JSONDecodeError
      | Some (key, s1) \<Rightarrow>
          (case skip_ws s1 of
             [] \<Rightarrow> Inl JSONDecodeError
           | n # s2 \<Rightarrow>
               if n \<noteq> 0x3A then Inl JSONDecodeError
               else
                 (case scan_once lim d (skip_ws s2) of
                    Inl e \<Rightarrow> Inl e
                  | Inr (v, s3) \<Rightarrow>
                      (case skip_ws s3 of
                         [] \<Rightarrow> Inl JSONDecodeError
                       | m # s4 \<Rightarrow>
                           if m = 0x7D then Inr ([(key, v)], s4)
                           else if m = 0x2C then
                             (case skip_ws s4 of
                                [] \<Rightarrow> Inl JSONDecodeError
                              | q # s5 \<Rightarrow>
                                  if q = 0x22 \<and> length s5 < length s
                                  then (case JSONObject_loop lim d s5 of
                                          Inl e \<Rightarrow> Inl e
                                        | Inr (pairs, r) \<Rightarrow> Inr ((key, v) # pairs, r))
                                  else Inl JSONDecodeError)
                           else Inl JSONDecodeError))))"
  by pat_completeness auto

termination
proof -
  have scanstring_length: "scanstring s = Some (str, r) \<Longrightarrow> length r < length s" for s str r
  proof (induction s arbitrary: str r rule: scanstring.induct)
    case 1
    then show ?case by simp
  next
    case (2 c cs)
    show ?case
      using "2.prems" "2.IH"
      by (fastforce split: if_splits list.splits option.splits)
  qed
  have skip_ws_length: "length (skip_ws s) \<le> length s" for s
    by (simp add: skip_ws_def length_dropWhile_le)
  have skip_ws_Cons_length: "skip_ws s = n # r \<Longrightarrow> length r < length s" for s n r
    using skip_ws_length [of s] by simp
  show ?thesis
  proof (relation "measure (\<lambda>x. case x of Inl (lim, d, s) \<Rightarrow> 2 * length s
                                    | Inr (Inl (lim, d, s)) \<Rightarrow> 2 * length s + 1
                                    | Inr (Inr (lim, d, s)) \<Rightarrow> 2 * length s + 1)", goal_cases)
    case 1
    show ?case by simp
  next
    case (2 lim d c cs n r)
    then show ?case using skip_ws_Cons_length [of cs n r] by simp
  next
    case (3 lim d c cs n r)
    then show ?case using skip_ws_Cons_length [of cs n r] by simp
  next
    case 4
    show ?case by simp
  next
    case 5
    then show ?case by simp
  next
    case (6 lim d s x2 key s1 n s2)
    then show ?case
      using scanstring_length [of s key s1] skip_ws_Cons_length [of s1 n s2] skip_ws_length [of s2]
      by simp
  next
    case 7
    then show ?case by simp
  qed
qed

declare JSONArray_loop.simps [simp del] JSONObject_loop.simps [simp del]

text \<open>
  \<^verbatim>\<open>json.loads(s)\<close>: skip whitespace, read one value, skip whitespace, and the text
  must end there (\<^verbatim>\<open>Extra data\<close> otherwise).
\<close>

definition json_loads :: "limits \<Rightarrow> pystr \<Rightarrow> error + pyobj" where
  "json_loads lim s =
     (case scan_once lim (recursion_budget lim) (skip_ws s) of
        Inl e \<Rightarrow> Inl e
      | Inr (obj, r) \<Rightarrow> if skip_ws r = [] then Inr obj else Inl JSONDecodeError)"

section \<open>\<^verbatim>\<open>re.search\<close> for the two patterns of the extractor\<close>

text \<open>
  The patterns use literal characters, the greedy star \<^verbatim>\<open>\s*\<close>, the lazy star
  \<^verbatim>\<open>[\s\S]*?\<close> and one capturing group. A pattern is the list of its items; \<open>re_match\<close>
  is the backtracking matcher of \<^verbatim>\<open>re\<close>: a greedy star tries the longest repetition
  first, a lazy star the shortest, and the first alternative that lets the rest of the
  pattern match wins. \<open>pos\<close> is the index in the text; the pair holds the start and the
  end of group 1.
\<close>

datatype charclass = Space | AnyChar

fun in_class :: "charclass \<Rightarrow> codepoint \<Rightarrow> bool" where
  "in_class Space c = is_space c"
| "in_class AnyChar c = True"

datatype re_item = Lit codepoint | GreedyStar charclass | LazyStar charclass | GroupOpen | GroupClose

fun re_match :: "re_item list \<Rightarrow> pystr \<Rightarrow> nat \<Rightarrow> nat \<times> nat \<Rightarrow> (nat \<times> nat \<times> nat) option" where
  "re_match [] s pos grp = Some (pos, grp)"
| "re_match (Lit c # items) [] pos grp = None"
| "re_match (Lit c # items) (x # xs) pos grp =
     (if x = c then re_match items xs (pos + 1) grp else None)"
| "re_match (GroupOpen # items) s pos grp = re_match items s pos (pos, snd grp)"
| "re_match (GroupClose # items) s pos grp = re_match items s pos (fst grp, pos)"
| "re_match (GreedyStar k # items) [] pos grp = re_match items [] pos grp"
| "re_match (GreedyStar k # items) (x # xs) pos grp =
     (if in_class k x then
        (case re_match (GreedyStar k # items) xs (pos + 1) grp of
           Some m \<Rightarrow> Some m
         | None \<Rightarrow> re_match items (x # xs) pos grp)
      else re_match items (x # xs) pos grp)"
| "re_match (LazyStar k # items) [] pos grp = re_match items [] pos grp"
| "re_match (LazyStar k # items) (x # xs) pos grp =
     (case re_match items (x # xs) pos grp of
        Some m \<Rightarrow> Some m
      | None \<Rightarrow> if in_class k x then re_match (LazyStar k # items) xs (pos + 1) grp else None)"

text \<open>
  \<^verbatim>\<open>re.search\<close>: the match at the leftmost position where the pattern matches. The
  result holds the start and the end of the match and of group 1.
\<close>

fun re_search_from :: "re_item list \<Rightarrow> pystr \<Rightarrow> nat \<Rightarrow> (nat \<times> nat \<times> nat \<times> nat) option" where
  "re_search_from items [] pos = map_option (\<lambda>m. (pos, m)) (re_match items [] pos (pos, pos))"
| "re_search_from items (x # xs) pos =
     (case re_match items (x # xs) pos (pos, pos) of
        Some m \<Rightarrow> Some (pos, m)
      | None \<Rightarrow> re_search_from items xs (pos + 1))"

definition re_search :: "re_item list \<Rightarrow> pystr \<Rightarrow> (nat \<times> nat \<times> nat \<times> nat) option" where
  "re_search items text = re_search_from items text 0"

definition slice :: "pystr \<Rightarrow> nat \<Rightarrow> nat \<Rightarrow> pystr" where
  "slice text i j = take (j - i) (drop i text)"

text \<open>\<^verbatim>\<open>match.group(0)\<close> and \<^verbatim>\<open>match.group(1)\<close>\<close>

fun group0 :: "pystr \<Rightarrow> nat \<times> nat \<times> nat \<times> nat \<Rightarrow> pystr" where
  "group0 text (start, stop, gs, ge) = slice text start stop"

fun group1 :: "pystr \<Rightarrow> nat \<times> nat \<times> nat \<times> nat \<Rightarrow> pystr" where
  "group1 text (start, stop, gs, ge) = slice text gs ge"

text \<open>\<^verbatim>\<open>r"```json\s*([\s\S]*?)\s*```"\<close>\<close>

definition fenced_pattern :: "re_item list" where
  "fenced_pattern =
     map Lit (ustr ''```json'') @ [GreedyStar Space, GroupOpen, LazyStar AnyChar, GroupClose,
       GreedyStar Space] @ map Lit (ustr ''```'')"

text \<open>\<^verbatim>\<open>r"\{\s*\"Version\"[\s\S]*?\"Statement\"[\s\S]*?\}"\<close>\<close>

definition brace_pattern :: "re_item list" where
  \<open>brace_pattern =
     [Lit 0x7B, GreedyStar Space] @ map Lit (ustr ''"Version"'') @ [LazyStar AnyChar] @
       map Lit (ustr ''"Statement"'') @ [LazyStar AnyChar, Lit 0x7D]\<close>

section \<open>\<^verbatim>\<open>PolicyValidator\<close>\<close>

text \<open>The two attributes set by \<^verbatim>\<open>__init__\<close>.\<close>

record PolicyValidator =
  overly_permissive_actions :: "pystr list"
  sensitive_actions :: "pystr list"

definition PolicyValidator_init :: PolicyValidator where
  "PolicyValidator_init =
     \<lparr> overly_permissive_actions =
         [ustr ''*'', ustr ''s3:*'', ustr ''ec2:*'', ustr ''iam:*'', ustr ''dynamodb:*'',
          ustr ''lambda:*'', ustr ''cloudformation:*''],
       sensitive_actions =
         [ustr ''iam:CreateUser'', ustr ''iam:CreateRole'', ustr ''iam:PutRolePolicy'',
          ustr ''iam:AttachRolePolicy'', ustr ''iam:AttachUserPolicy'', ustr ''s3:PutBucketPolicy'',
          ustr ''ec2:RunInstances'', ustr ''lambda:CreateFunction'', ustr ''kms:Decrypt'',
          ustr ''secretsmanager:GetSecretValue''] \<rparr>"

text \<open>The dict \<^verbatim>\<open>results\<close> that \<^verbatim>\<open>validate_policy\<close> builds and returns.\<close>

record results =
  valid :: bool
  issues :: "pystr list"
  recommendations :: "pystr list"

text \<open>
  The messages the validator formats. \<open>i\<close> is the index \<^verbatim>\<open>enumerate\<close> gives, so the
  messages show \<open>i + 1\<close>; \<open>0x27\<close> is the apostrophe.
\<close>

text \<open>\<^verbatim>\<open>"Missing 'Version' field in policy"\<close>\<close>

definition missing_version_issue :: pystr where
  "missing_version_issue = ustr ''Missing '' @ [0x27] @ ustr ''Version'' @ [0x27] @ ustr '' field in policy''"

text \<open>\<^verbatim>\<open>"Add 'Version': '2012-10-17' to the policy"\<close>\<close>

definition missing_version_recommendation :: pystr where
  "missing_version_recommendation =
     ustr ''Add '' @ [0x27] @ ustr ''Version'' @ [0x27] @ ustr '': '' @ [0x27] @ ustr ''2012-10-17'' @ [0x27] @
       ustr '' to the policy''"

text \<open>\<^verbatim>\<open>"Missing 'Statement' field in policy"\<close>\<close>

definition missing_statement_issue :: pystr where
  "missing_statement_issue = ustr ''Missing '' @ [0x27] @ ustr ''Statement'' @ [0x27] @ ustr '' field in policy''"

text \<open>\<^verbatim>\<open>f"Statement {i+1} contains overly permissive action: {action}"\<close>\<close>

definition permissive_issue :: "nat \<Rightarrow> pystr \<Rightarrow> pystr" where
  "permissive_issue i action =
     ustr ''Statement '' @ str_nat (i + 1) @ ustr '' contains overly permissive action: '' @ action"

text \<open>\<^verbatim>\<open>f"Replace '{action}' with specific actions needed for the use case"\<close>\<close>

definition permissive_recommendation :: "pystr \<Rightarrow> pystr" where
  "permissive_recommendation action =
     ustr ''Replace '' @ [0x27] @ action @ [0x27] @ ustr '' with specific actions needed for the use case''"

text \<open>\<^verbatim>\<open>f"Statement {i+1} contains sensitive action: {action}"\<close>\<close>

definition sensitive_issue :: "nat \<Rightarrow> pystr \<Rightarrow> pystr" where
  "sensitive_issue i action =
     ustr ''Statement '' @ str_nat (i + 1) @ ustr '' contains sensitive action: '' @ action"

text \<open>\<^verbatim>\<open>f"Review if '{action}' is absolutely necessary and consider adding conditions"\<close>\<close>

definition sensitive_recommendation :: "pystr \<Rightarrow> pystr" where
  "sensitive_recommendation action =
     ustr ''Review if '' @ [0x27] @ action @ [0x27] @
       ustr '' is absolutely necessary and consider adding conditions''"

text \<open>\<^verbatim>\<open>f"Statement {i+1} applies to all resources ('*')"\<close>\<close>

definition wildcard_issue :: "nat \<Rightarrow> pystr" where
  "wildcard_issue i =
     ustr ''Statement '' @ str_nat (i + 1) @ ustr '' applies to all resources ('' @ [0x27] @ ustr ''*'' @
       [0x27] @ ustr '')''"

text \<open>\<^verbatim>\<open>"Specify exact resource ARNs instead of using '*'"\<close>\<close>

definition wildcard_recommendation :: pystr where
  "wildcard_recommendation =
     ustr ''Specify exact resource ARNs instead of using '' @ [0x27] @ ustr ''*'' @ [0x27]"

text \<open>\<^verbatim>\<open>f"Statement {i+1} is missing 'Resource' field"\<close>\<close>

definition missing_resource_issue :: "nat \<Rightarrow> pystr" where
  "missing_resource_issue i =
     ustr ''Statement '' @ str_nat (i + 1) @ ustr '' is missing '' @ [0x27] @ ustr ''Resource'' @ [0x27] @
       ustr '' field''"

text \<open>\<^verbatim>\<open>"Add specific resource ARNs to the statement"\<close>\<close>

definition missing_resource_recommendation :: pystr where
  "missing_resource_recommendation = ustr ''Add specific resource ARNs to the statement''"

text \<open>\<^verbatim>\<open>f"Consider adding conditions to Statement {i+1} for additional security"\<close>\<close>

definition condition_recommendation :: "nat \<Rightarrow> pystr" where
  "condition_recommendation i =
     ustr ''Consider adding conditions to Statement '' @ str_nat (i + 1) @ ustr '' for additional security''"

text \<open>
  The first loop over \<^verbatim>\<open>actions\<close> (lines 81 to 85). \<^verbatim>\<open>action in self.overly_permissive_actions\<close>
  compares \<open>action\<close> with each string of the list, so it holds for a \<^verbatim>\<open>str\<close> equal to
  one of them and for no value of another type.
\<close>

fun check_permissive :: "PolicyValidator \<Rightarrow> nat \<Rightarrow> pyobj list \<Rightarrow> results \<Rightarrow> results" where
  "check_permissive self i [] r = r"
| "check_permissive self i (action # actions) r =
     check_permissive self i actions
       (case action of
          PStr a \<Rightarrow>
            if a \<in> set (overly_permissive_actions self) then
              r\<lparr> issues := issues r @ [permissive_issue i a],
                 recommendations := recommendations r @ [permissive_recommendation a],
                 valid := False \<rparr>
            else r
        | _ \<Rightarrow> r)"

text \<open>The second loop over \<^verbatim>\<open>actions\<close> (lines 88 to 91): it does not assign \<^verbatim>\<open>valid\<close>.\<close>

fun check_sensitive :: "PolicyValidator \<Rightarrow> nat \<Rightarrow> pyobj list \<Rightarrow> results \<Rightarrow> results" where
  "check_sensitive self i [] r = r"
| "check_sensitive self i (action # actions) r =
     check_sensitive self i actions
       (case action of
          PStr a \<Rightarrow>
            if a \<in> set (sensitive_actions self) then
              r\<lparr> issues := issues r @ [sensitive_issue i a],
                 recommendations := recommendations r @ [sensitive_recommendation a] \<rparr>
            else r
        | _ \<Rightarrow> r)"

text \<open>The loop over \<^verbatim>\<open>resources\<close> (lines 97 to 101).\<close>

fun check_wildcard :: "nat \<Rightarrow> pyobj list \<Rightarrow> results \<Rightarrow> results" where
  "check_wildcard i [] r = r"
| "check_wildcard i (resource # resources) r =
     check_wildcard i resources
       (if resource = PStr (ustr ''*'') then
          r\<lparr> issues := issues r @ [wildcard_issue i],
             recommendations := recommendations r @ [wildcard_recommendation],
             valid := False \<rparr>
        else r)"

text \<open>Lines 78 to 91: the checks on \<^verbatim>\<open>Action\<close>.\<close>

definition check_actions :: "PolicyValidator \<Rightarrow> nat \<Rightarrow> pyobj \<Rightarrow> results \<Rightarrow> error + results" where
  "check_actions self i statement r =
     and_then (py_in (ustr ''Action'') statement) (\<lambda>has_action.
       if has_action then
         and_then (py_getitem statement (ustr ''Action'')) (\<lambda>action.
           Inr (check_sensitive self i (as_list action) (check_permissive self i (as_list action) r)))
       else Inr r)"

text \<open>Lines 94 to 105: the checks on \<^verbatim>\<open>Resource\<close>.\<close>

definition check_resources :: "nat \<Rightarrow> pyobj \<Rightarrow> results \<Rightarrow> error + results" where
  "check_resources i statement r =
     and_then (py_in (ustr ''Resource'') statement) (\<lambda>has_resource.
       if has_resource then
         and_then (py_getitem statement (ustr ''Resource'')) (\<lambda>resource.
           Inr (check_wildcard i (as_list resource) r))
       else
         Inr (r\<lparr> issues := issues r @ [missing_resource_issue i],
                 recommendations := recommendations r @ [missing_resource_recommendation],
                 valid := False \<rparr>))"

text \<open>Lines 108 and 109: a recommendation, no issue.\<close>

definition check_condition :: "nat \<Rightarrow> pyobj \<Rightarrow> results \<Rightarrow> error + results" where
  "check_condition i statement r =
     and_then (py_in (ustr ''Condition'') statement) (\<lambda>has_condition.
       if \<not> has_condition then
         Inr (r\<lparr> recommendations := recommendations r @ [condition_recommendation i] \<rparr>)
       else Inr r)"

text \<open>The body of the loop over the statements.\<close>

definition check_statement :: "PolicyValidator \<Rightarrow> nat \<Rightarrow> pyobj \<Rightarrow> results \<Rightarrow> error + results" where
  "check_statement self i statement r =
     and_then (check_actions self i statement r) (\<lambda>r1.
     and_then (check_resources i statement r1) (\<lambda>r2.
     check_condition i statement r2))"

text \<open>\<^verbatim>\<open>for i, statement in enumerate(statements)\<close>, from index \<open>i\<close> on.\<close>

fun analyze_statements :: "PolicyValidator \<Rightarrow> nat \<Rightarrow> pyobj list \<Rightarrow> results \<Rightarrow> error + results" where
  "analyze_statements self i [] r = Inr r"
| "analyze_statements self i (statement # statements) r =
     and_then (check_statement self i statement r) (analyze_statements self (i + 1) statements)"

text \<open>\<^verbatim>\<open>isinstance(x, dict)\<close>\<close>

fun is_dict :: "pyobj \<Rightarrow> bool" where
  "is_dict (PDict kvs) = True"
| "is_dict v = False"

text \<open>Lines 48 to 51: a \<^verbatim>\<open>str\<close> argument is decoded, any other value is taken as it is.\<close>

fun parse_policy_json :: "limits \<Rightarrow> pyobj \<Rightarrow> error + pyobj" where
  "parse_policy_json lim (PStr s) = json_loads lim s"
| "parse_policy_json lim policy = Inr policy"

text \<open>Lines 54 to 111, on the decoded policy.\<close>

definition validate_decoded :: "PolicyValidator \<Rightarrow> pyobj \<Rightarrow> error + results" where
  "validate_decoded self policy =
     (let results = \<lparr> valid = True, issues = [], recommendations = [] \<rparr> in
      and_then (py_in (ustr ''Version'') policy) (\<lambda>has_version.
      let results =
            (if \<not> has_version then
               results\<lparr> issues := issues results @ [missing_version_issue],
                        recommendations := recommendations results @ [missing_version_recommendation],
                        valid := False \<rparr>
             else results) in
      and_then (py_in (ustr ''Statement'') policy) (\<lambda>has_statement.
      if \<not> has_statement then
        Inr (results\<lparr> issues := issues results @ [missing_statement_issue], valid := False \<rparr>)
      else
        and_then (py_getitem policy (ustr ''Statement'')) (\<lambda>statements.
        analyze_statements self 0 (as_list statements) results))))"

text \<open>The body of the \<^verbatim>\<open>try\<close> block.\<close>

definition validate_policy_try :: "limits \<Rightarrow> PolicyValidator \<Rightarrow> pyobj \<Rightarrow> error + results" where
  "validate_policy_try lim self policy_json =
     and_then (parse_policy_json lim policy_json) (validate_decoded self)"

text \<open>
  The two handlers (lines 113 to 124): \<^verbatim>\<open>except json.JSONDecodeError\<close> first, then
  \<^verbatim>\<open>except Exception as e\<close> for every other exception, with \<^verbatim>\<open>str(e)\<close> in the issue.
\<close>

fun validation_error_report :: "error \<Rightarrow> results" where
  "validation_error_report JSONDecodeError =
     \<lparr> valid = False, issues = [ustr ''Invalid JSON format''],
       recommendations = [ustr ''Check the policy syntax for errors''] \<rparr>"
| "validation_error_report (ValueError msg) =
     \<lparr> valid = False, issues = [ustr ''Validation error: '' @ msg],
       recommendations = [ustr ''Review the policy structure''] \<rparr>"
| "validation_error_report (RecursionError msg) =
     \<lparr> valid = False, issues = [ustr ''Validation error: '' @ msg],
       recommendations = [ustr ''Review the policy structure''] \<rparr>"
| "validation_error_report (TypeError msg) =
     \<lparr> valid = False, issues = [ustr ''Validation error: '' @ msg],
       recommendations = [ustr ''Review the policy structure''] \<rparr>"
| "validation_error_report (KeyError msg) =
     \<lparr> valid = False, issues = [ustr ''Validation error: '' @ msg],
       recommendations = [ustr ''Review the policy structure''] \<rparr>"

text \<open>
  \<^verbatim>\<open>validate_policy\<close>: the \<^verbatim>\<open>try\<close> block with its two handlers. The report built so far
  is dropped when an exception is raised.
\<close>

definition validate_policy :: "limits \<Rightarrow> PolicyValidator \<Rightarrow> pyobj \<Rightarrow> results" where
  "validate_policy lim self policy_json =
     (case validate_policy_try lim self policy_json of
        Inr r \<Rightarrow> r
      | Inl e \<Rightarrow> validation_error_report e)"

text \<open>The body of the \<^verbatim>\<open>try\<close> block of \<^verbatim>\<open>extract_policy_from_text\<close>.\<close>

definition extract_policy_try :: "limits \<Rightarrow> pystr \<Rightarrow> error + pystr option" where
  "extract_policy_try lim text =
     (case re_search fenced_pattern text of
        Some m \<Rightarrow>
          (let json_str = strip (group1 text m) in
           and_then (json_loads lim json_str) (\<lambda>_. Inr (Some json_str)))
      | None \<Rightarrow>
          (case re_search brace_pattern text of
             Some m \<Rightarrow>
               (let json_str = strip (group0 text m) in
                and_then (json_loads lim json_str) (\<lambda>_. Inr (Some json_str)))
           | None \<Rightarrow> Inr None))"

text \<open>\<^verbatim>\<open>extract_policy_from_text\<close>: the bare \<^verbatim>\<open>except\<close> turns every exception into \<^verbatim>\<open>None\<close>.\<close>

definition extract_policy_from_text :: "limits \<Rightarrow> pystr \<Rightarrow> pystr option" where
  "extract_policy_from_text lim text =
     (case extract_policy_try lim text of
        Inr res \<Rightarrow> res
      | Inl e \<Rightarrow> None)"

section \<open>\<^verbatim>\<open>PolicyUtils.extract_and_save_policy\<close>\<close>

text \<open>
  The same two searches, followed by \<^verbatim>\<open>self.save_policy\<close>. \<open>save_policy\<close> stands for
  that method with the name and the description fixed: it writes a file and returns
  its path, or \<^verbatim>\<open>None\<close> when writing fails. The result is the pair the method returns.
\<close>

definition extract_and_save_try ::
    "limits \<Rightarrow> (pystr \<Rightarrow> pystr option) \<Rightarrow> pystr \<Rightarrow> error + bool \<times> pystr option" where
  "extract_and_save_try lim save_policy text =
     (case re_search fenced_pattern text of
        Some m \<Rightarrow>
          (let json_str = strip (group1 text m) in
           and_then (json_loads lim json_str) (\<lambda>_. Inr (True, save_policy json_str)))
      | None \<Rightarrow>
          (case re_search brace_pattern text of
             Some m \<Rightarrow>
               (let json_str = strip (group0 text m) in
                and_then (json_loads lim json_str) (\<lambda>_. Inr (True, save_policy json_str)))
           | None \<Rightarrow> Inr (False, Some (ustr ''No valid policy JSON found in the text''))))"

text \<open>
  The two handlers (lines 155 to 158): \<^verbatim>\<open>except json.JSONDecodeError\<close> first, then
  \<^verbatim>\<open>except Exception as e\<close>.
\<close>

fun extract_error_message :: "error \<Rightarrow> pystr" where
  "extract_error_message JSONDecodeError = ustr ''Invalid JSON format in the extracted policy''"
| "extract_error_message (ValueError msg) = ustr ''Error extracting and saving policy: '' @ msg"
| "extract_error_message (RecursionError msg) = ustr ''Error extracting and saving policy: '' @ msg"
| "extract_error_message (TypeError msg) = ustr ''Error extracting and saving policy: '' @ msg"
| "extract_error_message (KeyError msg) = ustr ''Error extracting and saving policy: '' @ msg"

definition extract_and_save_policy ::
    "limits \<Rightarrow> (pystr \<Rightarrow> pystr option) \<Rightarrow> pystr \<Rightarrow> bool \<times> pystr option" where
  "extract_and_save_policy lim save_policy text =
     (case extract_and_save_try lim save_policy text of
        Inr res \<Rightarrow> res
      | Inl e \<Rightarrow> (False, Some (extract_error_message e)))"

section \<open>The objects a call of \<^verbatim>\<open>validate_policy\<close> reads and writes\<close>

text \<open>
  The functions above compute the report as a value. The functions of this section
  follow the same lines of the source on an explicit store, where the instance, its two
  lists, the argument, the dict \<^verbatim>\<open>results\<close> and the lists under its keys are objects at
  addresses: \<^verbatim>\<open>append\<close> and the assignment to \<^verbatim>\<open>results["valid"]\<close> change the object at an
  address, and \<^verbatim>\<open>self.overly_permissive_actions\<close> and \<^verbatim>\<open>self.sensitive_actions\<close> are read
  from the store each time the source evaluates them. What a call leaves in the store
  is what the next call finds.
\<close>

type_synonym addr = nat

datatype cell =
    ListCell "pystr list"
  | ResultsCell bool addr addr
  | InstanceCell addr addr
  | ValueCell pyobj

text \<open>
  \<open>ListCell\<close> is a list of strings. \<open>ResultsCell\<close> is the dict \<^verbatim>\<open>results\<close>: the value under
  \<^verbatim>\<open>valid\<close> and the addresses of the lists under \<^verbatim>\<open>issues\<close> and \<^verbatim>\<open>recommendations\<close>.
  \<open>InstanceCell\<close> is a \<^verbatim>\<open>PolicyValidator\<close>: the addresses of the lists under its two
  attributes. \<open>ValueCell\<close> is an argument, which the method only reads. The store is the
  list of its cells; a new object gets the next address.
\<close>

type_synonym heap = "cell list"

definition alloc :: "cell \<Rightarrow> heap \<Rightarrow> addr \<times> heap" where
  "alloc c h = (length h, h @ [c])"

definition cell_at :: "heap \<Rightarrow> addr \<Rightarrow> cell option" where
  "cell_at h a = (if a < length h then Some (h ! a) else None)"

definition list_at :: "heap \<Rightarrow> addr \<Rightarrow> pystr list" where
  "list_at h a = (case cell_at h a of Some (ListCell xs) \<Rightarrow> xs | _ \<Rightarrow> [])"

definition value_at :: "heap \<Rightarrow> addr \<Rightarrow> pyobj" where
  "value_at h a = (case cell_at h a of Some (ValueCell v) \<Rightarrow> v | _ \<Rightarrow> PNone)"

text \<open>\<^verbatim>\<open>xs.append(x)\<close> on the list at address \<open>a\<close>.\<close>

definition list_append :: "addr \<Rightarrow> pystr \<Rightarrow> heap \<Rightarrow> heap" where
  "list_append a x h =
     (case cell_at h a of
        Some (ListCell xs) \<Rightarrow> h[a := ListCell (xs @ [x])]
      | _ \<Rightarrow> h)"

text \<open>\<^verbatim>\<open>results["issues"].append(msg)\<close>\<close>

definition results_append_issue :: "addr \<Rightarrow> pystr \<Rightarrow> heap \<Rightarrow> heap" where
  "results_append_issue res msg h =
     (case cell_at h res of
        Some (ResultsCell v ia ra) \<Rightarrow> list_append ia msg h
      | _ \<Rightarrow> h)"

text \<open>\<^verbatim>\<open>results["recommendations"].append(msg)\<close>\<close>

definition results_append_recommendation :: "addr \<Rightarrow> pystr \<Rightarrow> heap \<Rightarrow> heap" where
  "results_append_recommendation res msg h =
     (case cell_at h res of
        Some (ResultsCell v ia ra) \<Rightarrow> list_append ra msg h
      | _ \<Rightarrow> h)"

text \<open>\<^verbatim>\<open>results["valid"] = b\<close>\<close>

definition results_set_valid :: "addr \<Rightarrow> bool \<Rightarrow> heap \<Rightarrow> heap" where
  "results_set_valid res b h =
     (case cell_at h res of
        Some (ResultsCell v ia ra) \<Rightarrow> h[res := ResultsCell b ia ra]
      | _ \<Rightarrow> h)"

text \<open>\<^verbatim>\<open>self.overly_permissive_actions\<close> and \<^verbatim>\<open>self.sensitive_actions\<close>, read from the store.\<close>

definition attr_overly_permissive_actions :: "heap \<Rightarrow> addr \<Rightarrow> pystr list" where
  "attr_overly_permissive_actions h self =
     (case cell_at h self of Some (InstanceCell pa sa) \<Rightarrow> list_at h pa | _ \<Rightarrow> [])"

definition attr_sensitive_actions :: "heap \<Rightarrow> addr \<Rightarrow> pystr list" where
  "attr_sensitive_actions h self =
     (case cell_at h self of Some (InstanceCell pa sa) \<Rightarrow> list_at h sa | _ \<Rightarrow> [])"

text \<open>The instance and the report as values, read from the store.\<close>

definition instance_at :: "heap \<Rightarrow> addr \<Rightarrow> PolicyValidator" where
  "instance_at h self =
     \<lparr> overly_permissive_actions = attr_overly_permissive_actions h self,
       sensitive_actions = attr_sensitive_actions h self \<rparr>"

definition report_at :: "heap \<Rightarrow> addr \<Rightarrow> results" where
  "report_at h res =
     (case cell_at h res of
        Some (ResultsCell v ia ra) \<Rightarrow>
          \<lparr> valid = v, issues = list_at h ia, recommendations = list_at h ra \<rparr>
      | _ \<Rightarrow> \<lparr> valid = False, issues = [], recommendations = [] \<rparr>)"

text \<open>
  A dict literal \<^verbatim>\<open>{"valid": v, "issues": [...], "recommendations": [...]}\<close>: two new lists
  and a new dict.
\<close>

definition new_results :: "bool \<Rightarrow> pystr list \<Rightarrow> pystr list \<Rightarrow> heap \<Rightarrow> addr \<times> heap" where
  "new_results v iss recs h =
     (let (ia, h1) = alloc (ListCell iss) h;
          (ra, h2) = alloc (ListCell recs) h1
      in alloc (ResultsCell v ia ra) h2)"

text \<open>\<^verbatim>\<open>PolicyValidator()\<close>: \<^verbatim>\<open>__init__\<close> makes the two lists.\<close>

definition PolicyValidator_new :: "heap \<Rightarrow> addr \<times> heap" where
  "PolicyValidator_new h =
     (let (pa, h1) = alloc (ListCell (overly_permissive_actions PolicyValidator_init)) h;
          (sa, h2) = alloc (ListCell (sensitive_actions PolicyValidator_init)) h1
      in alloc (InstanceCell pa sa) h2)"

text \<open>The loops of lines 81 to 85, 88 to 91 and 97 to 101 on the store.\<close>

fun check_permissive_heap :: "addr \<Rightarrow> nat \<Rightarrow> pyobj list \<Rightarrow> addr \<Rightarrow> heap \<Rightarrow> heap" where
  "check_permissive_heap self i [] res h = h"
| "check_permissive_heap self i (action # actions) res h =
     check_permissive_heap self i actions res
       (case action of
          PStr a \<Rightarrow>
            if a \<in> set (attr_overly_permissive_actions h self) then
              results_set_valid res False
                (results_append_recommendation res (permissive_recommendation a)
                  (results_append_issue res (permissive_issue i a) h))
            else h
        | _ \<Rightarrow> h)"

fun check_sensitive_heap :: "addr \<Rightarrow> nat \<Rightarrow> pyobj list \<Rightarrow> addr \<Rightarrow> heap \<Rightarrow> heap" where
  "check_sensitive_heap self i [] res h = h"
| "check_sensitive_heap self i (action # actions) res h =
     check_sensitive_heap self i actions res
       (case action of
          PStr a \<Rightarrow>
            if a \<in> set (attr_sensitive_actions h self) then
              results_append_recommendation res (sensitive_recommendation a)
                (results_append_issue res (sensitive_issue i a) h)
            else h
        | _ \<Rightarrow> h)"

fun check_wildcard_heap :: "nat \<Rightarrow> pyobj list \<Rightarrow> addr \<Rightarrow> heap \<Rightarrow> heap" where
  "check_wildcard_heap i [] res h = h"
| "check_wildcard_heap i (resource # resources) res h =
     check_wildcard_heap i resources res
       (if resource = PStr (ustr ''*'') then
          results_set_valid res False
            (results_append_recommendation res wildcard_recommendation
              (results_append_issue res (wildcard_issue i) h))
        else h)"

text \<open>
  The checks on one statement. The first component is the exception raised, if any;
  the store is returned in both cases, as an exception does not undo what was written.
\<close>

definition check_actions_heap :: "addr \<Rightarrow> nat \<Rightarrow> pyobj \<Rightarrow> addr \<Rightarrow> heap \<Rightarrow> error option \<times> heap" where
  "check_actions_heap self i statement res h =
     (case py_in (ustr ''Action'') statement of
        Inl e \<Rightarrow> (Some e, h)
      | Inr has_action \<Rightarrow>
          if has_action then
            (case py_getitem statement (ustr ''Action'') of
               Inl e \<Rightarrow> (Some e, h)
             | Inr action \<Rightarrow>
                 (None, check_sensitive_heap self i (as_list action) res
                          (check_permissive_heap self i (as_list action) res h)))
          else (None, h))"

definition check_resources_heap :: "nat \<Rightarrow> pyobj \<Rightarrow> addr \<Rightarrow> heap \<Rightarrow> error option \<times> heap" where
  "check_resources_heap i statement res h =
     (case py_in (ustr ''Resource'') statement of
        Inl e \<Rightarrow> (Some e, h)
      | Inr has_resource \<Rightarrow>
          if has_resource then
            (case py_getitem statement (ustr ''Resource'') of
               Inl e \<Rightarrow> (Some e, h)
             | Inr resource \<Rightarrow> (None, check_wildcard_heap i (as_list resource) res h))
          else
            (None, results_set_valid res False
                     (results_append_recommendation res missing_resource_recommendation
                       (results_append_issue res (missing_resource_issue i) h))))"

definition check_condition_heap :: "nat \<Rightarrow> pyobj \<Rightarrow> addr \<Rightarrow> heap \<Rightarrow> error option \<times> heap" where
  "check_condition_heap i statement res h =
     (case py_in (ustr ''Condition'') statement of
        Inl e \<Rightarrow> (Some e, h)
      | Inr has_condition \<Rightarrow>
          if \<not> has_condition
          then (None, results_append_recommendation res (condition_recommendation i) h)
          else (None, h))"

definition check_statement_heap :: "addr \<Rightarrow> nat \<Rightarrow> pyobj \<Rightarrow> addr \<Rightarrow> heap \<Rightarrow> error option \<times> heap" where
  "check_statement_heap self i statement res h =
     (case check_actions_heap self i statement res h of
        (Some e, h1) \<Rightarrow> (Some e, h1)
      | (None, h1) \<Rightarrow>
          (case check_resources_heap i statement res h1 of
             (Some e, h2) \<Rightarrow> (Some e, h2)
           | (None, h2) \<Rightarrow> check_condition_heap i statement res h2))"

fun analyze_statements_heap :: "addr \<Rightarrow> nat \<Rightarrow> pyobj list \<Rightarrow> addr \<Rightarrow> heap \<Rightarrow> error option \<times> heap" where
  "analyze_statements_heap self i [] res h = (None, h)"
| "analyze_statements_heap self i (statement # statements) res h =
     (case check_statement_heap self i statement res h of
        (Some e, h1) \<Rightarrow> (Some e, h1)
      | (None, h1) \<Rightarrow> analyze_statements_heap self (i + 1) statements res h1)"

text \<open>Lines 54 to 111 on the store: the address of \<^verbatim>\<open>results\<close>, or the exception raised.\<close>

definition validate_decoded_heap :: "addr \<Rightarrow> pyobj \<Rightarrow> heap \<Rightarrow> (error + addr) \<times> heap" where
  "validate_decoded_heap self policy h =
     (let (res, h1) = new_results True [] [] h in
      case py_in (ustr ''Version'') policy of
        Inl e \<Rightarrow> (Inl e, h1)
      | Inr has_version \<Rightarrow>
          let h2 = (if \<not> has_version then
                      results_set_valid res False
                        (results_append_recommendation res missing_version_recommendation
                          (results_append_issue res missing_version_issue h1))
                    else h1) in
          (case py_in (ustr ''Statement'') policy of
             Inl e \<Rightarrow> (Inl e, h2)
           | Inr has_statement \<Rightarrow>
               if \<not> has_statement then
                 (Inr res, results_set_valid res False (results_append_issue res missing_statement_issue h2))
               else
                 (case py_getitem policy (ustr ''Statement'') of
                    Inl e \<Rightarrow> (Inl e, h2)
                  | Inr statements \<Rightarrow>
                      (case analyze_statements_heap self 0 (as_list statements) res h2 of
                         (Some e, h3) \<Rightarrow> (Inl e, h3)
                       | (None, h3) \<Rightarrow> (Inr res, h3)))))"

text \<open>
  \<^verbatim>\<open>validate_policy\<close> on the store: \<open>self\<close> and \<open>arg\<close> are the addresses of the instance and
  of the argument; the result is the address of the dict returned. A handler returns a
  new dict.
\<close>

definition handler_heap :: "error \<Rightarrow> heap \<Rightarrow> addr \<times> heap" where
  "handler_heap e h =
     new_results (valid (validation_error_report e)) (issues (validation_error_report e))
       (recommendations (validation_error_report e)) h"

definition validate_policy_heap :: "limits \<Rightarrow> addr \<Rightarrow> addr \<Rightarrow> heap \<Rightarrow> addr \<times> heap" where
  "validate_policy_heap lim self arg h =
     (case parse_policy_json lim (value_at h arg) of
        Inl e \<Rightarrow> handler_heap e h
      | Inr policy \<Rightarrow>
          (case validate_decoded_heap self policy h of
             (Inl e, h1) \<Rightarrow> handler_heap e h1
           | (Inr res, h1) \<Rightarrow> (res, h1)))"

text \<open>
  What the proofs about the store keep track of. \<open>unchanged_below n h h'\<close>: the store
  \<open>h'\<close> has the cells of \<open>h\<close> below \<open>n\<close>. \<open>instance_ok\<close>: the instance and its two lists are
  objects below \<open>n\<close>. \<open>results_ok\<close>: the dict \<^verbatim>\<open>results\<close> and its two lists are three objects
  at or above \<open>n\<close>.
\<close>

definition unchanged_below :: "nat \<Rightarrow> heap \<Rightarrow> heap \<Rightarrow> bool" where
  "unchanged_below n h h' \<longleftrightarrow> length h \<le> length h' \<and> (\<forall>b < n. b < length h \<longrightarrow> h' ! b = h ! b)"

definition instance_ok :: "heap \<Rightarrow> nat \<Rightarrow> addr \<Rightarrow> bool" where
  "instance_ok h n self \<longleftrightarrow>
     n \<le> length h \<and> self < n \<and>
     (\<exists>pa sa xs ys. h ! self = InstanceCell pa sa \<and> pa < n \<and> sa < n \<and>
        h ! pa = ListCell xs \<and> h ! sa = ListCell ys)"

definition results_ok :: "heap \<Rightarrow> nat \<Rightarrow> addr \<Rightarrow> bool" where
  "results_ok h n res \<longleftrightarrow>
     res < length h \<and> n \<le> res \<and>
     (\<exists>v ia ra xs ys. h ! res = ResultsCell v ia ra \<and> ia < length h \<and> ra < length h \<and>
        n \<le> ia \<and> n \<le> ra \<and> ia \<noteq> ra \<and> h ! ia = ListCell xs \<and> h ! ra = ListCell ys)"

section \<open>Sequencing and dict access\<close>

lemma and_then_Inr [simp]: "and_then (Inr x) f = f x"
  by (simp add: and_then_def)

lemma and_then_Inl [simp]: "and_then (Inl e) f = Inl e"
  by (simp add: and_then_def)

lemma and_then_eq_Inr:
  "and_then m f = Inr y \<longleftrightarrow> (\<exists>x. m = Inr x \<and> f x = Inr y)"
  by (cases m) simp_all

lemma py_in_dict: "py_in k (PDict kvs) = Inr (map_of kvs k \<noteq> None)"
  by (simp add: map_of_eq_None_iff)

lemma py_getitem_dict_Some: "map_of kvs k = Some v \<Longrightarrow> py_getitem (PDict kvs) k = Inr v"
  by simp

text \<open>On a value that is not a dict, a successful \<^verbatim>\<open>in\<close> is followed by a failing index.\<close>

lemma py_in_then_getitem:
  assumes "py_in k s = Inr True" and "py_getitem s k = Inr v"
  shows "\<exists>kvs. s = PDict kvs \<and> map_of kvs k = Some v"
  using assms by (cases s) (auto split: option.splits)

section \<open>The decimal digits of an index\<close>

lemma str_nat_digits: "c \<in> set (str_nat n) \<Longrightarrow> 0x30 \<le> c \<and> c \<le> 0x39"
proof (induction n rule: str_nat.induct)
  case (1 n)
  show ?case
  proof (cases "n < 10")
    case True
    with "1.prems" show ?thesis by (simp add: str_nat.simps [of n])
  next
    case False
    with "1.prems" have "c \<in> set (str_nat (n div 10)) \<or> c = 0x30 + n mod 10"
      by (auto simp add: str_nat.simps [of n])
    then show ?thesis
    proof
      assume "c \<in> set (str_nat (n div 10))"
      with "1.IH" False show ?thesis by simp
    next
      assume "c = 0x30 + n mod 10"
      moreover have "n mod 10 < 10" by simp
      ultimately show ?thesis by linarith
    qed
  qed
qed

lemma str_nat_value: "foldl (\<lambda>a d. 10 * a + (d - 0x30)) 0 (str_nat n) = n"
proof (induction n rule: str_nat.induct)
  case (1 n)
  show ?case
  proof (cases "n < 10")
    case True
    then show ?thesis by (simp add: str_nat.simps [of n])
  next
    case False
    with "1.IH" show ?thesis by (simp add: str_nat.simps [of n])
  qed
qed

lemma str_nat_inj:
  assumes "str_nat m = str_nat n"
  shows "m = n"
proof -
  have "m = foldl (\<lambda>a d. 10 * a + (d - 0x30)) 0 (str_nat m)"
    by (simp only: str_nat_value)
  also have "\<dots> = foldl (\<lambda>a d. 10 * a + (d - 0x30)) 0 (str_nat n)"
    by (simp only: assms)
  also have "\<dots> = n"
    by (simp only: str_nat_value)
  finally show ?thesis .
qed

text \<open>Two texts that agree up to the first space after their digits.\<close>

lemma split_at_separator:
  assumes "xs @ sep # r = ys @ sep # r'" and "sep \<notin> set xs" and "sep \<notin> set ys"
  shows "xs = ys \<and> r = r'"
  using assms
proof (induction xs arbitrary: ys)
  case Nil
  then show ?case by (cases ys) auto
next
  case (Cons x xs)
  then show ?case by (cases ys) auto
qed

lemma statement_prefix_eq:
  assumes "ustr ''Statement '' @ str_nat m @ 0x20 # r = ustr ''Statement '' @ str_nat n @ 0x20 # r'"
  shows "m = n \<and> r = r'"
proof -
  have "str_nat m @ 0x20 # r = str_nat n @ 0x20 # r'"
    using assms by simp
  moreover have "0x20 \<notin> set (str_nat m)" "0x20 \<notin> set (str_nat n)"
    using str_nat_digits [of "0x20"] by auto
  ultimately have "str_nat m = str_nat n \<and> r = r'"
    by (rule split_at_separator)
  then show ?thesis by (simp add: str_nat_inj)
qed

lemma permissive_issue_eq:
  "permissive_issue i a = permissive_issue j b \<longleftrightarrow> i = j \<and> a = b"
proof
  assume "permissive_issue i a = permissive_issue j b"
  then have "ustr ''Statement '' @ str_nat (i + 1) @ 0x20 # (ustr ''contains overly permissive action: '' @ a)
      = ustr ''Statement '' @ str_nat (j + 1) @ 0x20 # (ustr ''contains overly permissive action: '' @ b)"
    by (simp add: permissive_issue_def ustr_def)
  then have "i + 1 = j + 1 \<and> ustr ''contains overly permissive action: '' @ a
      = ustr ''contains overly permissive action: '' @ b"
    by (rule statement_prefix_eq)
  then show "i = j \<and> a = b" by simp
qed simp

lemma permissive_issue_neq_sensitive: "permissive_issue i a \<noteq> sensitive_issue j b"
proof
  assume "permissive_issue i a = sensitive_issue j b"
  then have "ustr ''Statement '' @ str_nat (i + 1) @ 0x20 # (ustr ''contains overly permissive action: '' @ a)
      = ustr ''Statement '' @ str_nat (j + 1) @ 0x20 # (ustr ''contains sensitive action: '' @ b)"
    by (simp add: permissive_issue_def sensitive_issue_def ustr_def)
  then have "ustr ''contains overly permissive action: '' @ a = ustr ''contains sensitive action: '' @ b"
    using statement_prefix_eq by blast
  then show False by (simp add: ustr_def)
qed

lemma permissive_issue_neq_wildcard: "permissive_issue i a \<noteq> wildcard_issue j"
proof
  assume "permissive_issue i a = wildcard_issue j"
  then have "ustr ''Statement '' @ str_nat (i + 1) @ 0x20 # (ustr ''contains overly permissive action: '' @ a)
      = ustr ''Statement '' @ str_nat (j + 1) @ 0x20 #
          (ustr ''applies to all resources ('' @ [0x27] @ ustr ''*'' @ [0x27] @ ustr '')'')"
    by (simp add: permissive_issue_def wildcard_issue_def ustr_def)
  then have "ustr ''contains overly permissive action: '' @ a
      = ustr ''applies to all resources ('' @ [0x27] @ ustr ''*'' @ [0x27] @ ustr '')''"
    using statement_prefix_eq by blast
  then show False by (simp add: ustr_def)
qed

lemma permissive_issue_neq_missing_resource: "permissive_issue i a \<noteq> missing_resource_issue j"
proof
  assume "permissive_issue i a = missing_resource_issue j"
  then have "ustr ''Statement '' @ str_nat (i + 1) @ 0x20 # (ustr ''contains overly permissive action: '' @ a)
      = ustr ''Statement '' @ str_nat (j + 1) @ 0x20 #
          (ustr ''is missing '' @ [0x27] @ ustr ''Resource'' @ [0x27] @ ustr '' field'')"
    by (simp add: permissive_issue_def missing_resource_issue_def ustr_def)
  then have "ustr ''contains overly permissive action: '' @ a
      = ustr ''is missing '' @ [0x27] @ ustr ''Resource'' @ [0x27] @ ustr '' field''"
    using statement_prefix_eq by blast
  then show False by (simp add: ustr_def)
qed

lemma permissive_issue_neq_missing_version: "permissive_issue i a \<noteq> missing_version_issue"
  by (simp add: permissive_issue_def missing_version_issue_def ustr_def)

section \<open>The loops over actions and resources\<close>

lemma check_permissive_issues:
  "set (issues (check_permissive self i actions r)) =
     set (issues r) \<union> {permissive_issue i a | a. PStr a \<in> set actions \<and> a \<in> set (overly_permissive_actions self)}"
  by (induction actions arbitrary: r) (auto split: pyobj.splits)

lemma check_permissive_recommendations:
  "set (recommendations (check_permissive self i actions r)) =
     set (recommendations r) \<union>
       {permissive_recommendation a | a. PStr a \<in> set actions \<and> a \<in> set (overly_permissive_actions self)}"
  by (induction actions arbitrary: r) (auto split: pyobj.splits)

lemma check_permissive_valid:
  "valid (check_permissive self i actions r) \<longleftrightarrow>
     valid r \<and> (\<forall>a. PStr a \<in> set actions \<longrightarrow> a \<notin> set (overly_permissive_actions self))"
  by (induction actions arbitrary: r) (auto split: pyobj.splits)

lemma check_sensitive_issues:
  "set (issues (check_sensitive self i actions r)) =
     set (issues r) \<union> {sensitive_issue i a | a. PStr a \<in> set actions \<and> a \<in> set (sensitive_actions self)}"
  by (induction actions arbitrary: r) (auto split: pyobj.splits)

lemma check_sensitive_recommendations:
  "set (recommendations (check_sensitive self i actions r)) =
     set (recommendations r) \<union>
       {sensitive_recommendation a | a. PStr a \<in> set actions \<and> a \<in> set (sensitive_actions self)}"
  by (induction actions arbitrary: r) (auto split: pyobj.splits)

lemma check_sensitive_valid: "valid (check_sensitive self i actions r) = valid r"
  by (induction actions arbitrary: r) (auto split: pyobj.splits)

lemma check_wildcard_issues:
  "set (issues (check_wildcard i resources r)) =
     set (issues r) \<union> (if PStr (ustr ''*'') \<in> set resources then {wildcard_issue i} else {})"
  by (induction resources arbitrary: r) auto

lemma check_wildcard_recommendations:
  "set (recommendations (check_wildcard i resources r)) =
     set (recommendations r) \<union> (if PStr (ustr ''*'') \<in> set resources then {wildcard_recommendation} else {})"
  by (induction resources arbitrary: r) auto

lemma check_wildcard_valid:
  "valid (check_wildcard i resources r) \<longleftrightarrow> valid r \<and> PStr (ustr ''*'') \<notin> set resources"
  by (induction resources arbitrary: r) auto

section \<open>The checks on one statement\<close>

lemma check_actions_dict:
  "check_actions self i (PDict kvs) r =
     Inr (case map_of kvs (ustr ''Action'') of
            None \<Rightarrow> r
          | Some action \<Rightarrow>
              check_sensitive self i (as_list action) (check_permissive self i (as_list action) r))"
  by (cases "map_of kvs (ustr ''Action'')") (simp_all add: check_actions_def py_in_dict del: py_in.simps)

lemma check_resources_dict:
  "check_resources i (PDict kvs) r =
     Inr (case map_of kvs (ustr ''Resource'') of
            None \<Rightarrow> r\<lparr> issues := issues r @ [missing_resource_issue i],
                       recommendations := recommendations r @ [missing_resource_recommendation],
                       valid := False \<rparr>
          | Some resource \<Rightarrow> check_wildcard i (as_list resource) r)"
  by (cases "map_of kvs (ustr ''Resource'')") (simp_all add: check_resources_def py_in_dict del: py_in.simps)

lemma check_condition_dict:
  "check_condition i (PDict kvs) r =
     Inr (case map_of kvs (ustr ''Condition'') of
            None \<Rightarrow> r\<lparr> recommendations := recommendations r @ [condition_recommendation i] \<rparr>
          | Some c \<Rightarrow> r)"
  by (cases "map_of kvs (ustr ''Condition'')") (simp_all add: check_condition_def py_in_dict del: py_in.simps)

text \<open>What a step that did not raise has done, for a statement of any type.\<close>

lemma check_actions_Inr:
  assumes "check_actions self i s r = Inr r1"
  shows "r1 = r \<or>
    (\<exists>kvs action. s = PDict kvs \<and> map_of kvs (ustr ''Action'') = Some action \<and>
       r1 = check_sensitive self i (as_list action) (check_permissive self i (as_list action) r))"
proof -
  obtain b where b: "py_in (ustr ''Action'') s = Inr b"
    and rest: "(if b then and_then (py_getitem s (ustr ''Action'')) (\<lambda>action.
           Inr (check_sensitive self i (as_list action) (check_permissive self i (as_list action) r)))
       else Inr r) = Inr r1"
    using assms unfolding check_actions_def and_then_eq_Inr by blast
  show ?thesis
  proof (cases b)
    case False
    with rest show ?thesis by simp
  next
    case True
    with rest have "and_then (py_getitem s (ustr ''Action'')) (\<lambda>action.
           Inr (check_sensitive self i (as_list action) (check_permissive self i (as_list action) r)))
        = Inr r1"
      by simp
    then obtain action where g: "py_getitem s (ustr ''Action'') = Inr action"
      and r1: "r1 = check_sensitive self i (as_list action) (check_permissive self i (as_list action) r)"
      by (auto simp add: and_then_eq_Inr)
    from b True have "py_in (ustr ''Action'') s = Inr True"
      by simp
    from py_in_then_getitem [OF this g]
    obtain kvs where "s = PDict kvs" "map_of kvs (ustr ''Action'') = Some action"
      by blast
    with r1 show ?thesis by blast
  qed
qed

lemma check_resources_Inr:
  assumes "check_resources i s r = Inr r1"
  shows "r1 = r\<lparr> issues := issues r @ [missing_resource_issue i],
                  recommendations := recommendations r @ [missing_resource_recommendation],
                  valid := False \<rparr> \<or>
    (\<exists>kvs resource. s = PDict kvs \<and> map_of kvs (ustr ''Resource'') = Some resource \<and>
       r1 = check_wildcard i (as_list resource) r)"
proof -
  obtain b where b: "py_in (ustr ''Resource'') s = Inr b"
    and rest: "(if b then and_then (py_getitem s (ustr ''Resource'')) (\<lambda>resource.
           Inr (check_wildcard i (as_list resource) r))
       else Inr (r\<lparr> issues := issues r @ [missing_resource_issue i],
                  recommendations := recommendations r @ [missing_resource_recommendation],
                  valid := False \<rparr>)) = Inr r1"
    using assms unfolding check_resources_def and_then_eq_Inr by blast
  show ?thesis
  proof (cases b)
    case False
    with rest show ?thesis by simp
  next
    case True
    with rest have "and_then (py_getitem s (ustr ''Resource'')) (\<lambda>resource.
           Inr (check_wildcard i (as_list resource) r)) = Inr r1"
      by simp
    then obtain resource where g: "py_getitem s (ustr ''Resource'') = Inr resource"
      and r1: "r1 = check_wildcard i (as_list resource) r"
      by (auto simp add: and_then_eq_Inr)
    from b True have "py_in (ustr ''Resource'') s = Inr True"
      by simp
    from py_in_then_getitem [OF this g]
    obtain kvs where "s = PDict kvs" "map_of kvs (ustr ''Resource'') = Some resource"
      by blast
    with r1 show ?thesis by blast
  qed
qed

lemma check_condition_Inr:
  assumes "check_condition i s r = Inr r1"
  shows "issues r1 = issues r \<and> valid r1 = valid r \<and>
    (recommendations r1 = recommendations r \<or>
     recommendations r1 = recommendations r @ [condition_recommendation i])"
  using assms unfolding check_condition_def and_then_eq_Inr
  by (auto split: if_splits)

lemma check_statement_Inr:
  assumes "check_statement self i s r = Inr r3"
  obtains r1 r2 where "check_actions self i s r = Inr r1"
    and "check_resources i s r1 = Inr r2"
    and "check_condition i s r2 = Inr r3"
  using assms unfolding check_statement_def and_then_eq_Inr by blast

lemma check_statement_dict_total: "\<exists>r1. check_statement self i (PDict kvs) r = Inr r1"
  by (simp add: check_statement_def check_actions_dict check_resources_dict check_condition_dict)

lemma check_actions_mono:
  assumes "check_actions self i s r = Inr r1"
  shows "set (issues r) \<subseteq> set (issues r1)"
    and "set (recommendations r) \<subseteq> set (recommendations r1)"
    and "valid r1 \<Longrightarrow> valid r"
  using check_actions_Inr [OF assms]
  by (auto simp add: check_sensitive_issues check_permissive_issues check_sensitive_recommendations
      check_permissive_recommendations check_sensitive_valid check_permissive_valid)

lemma check_actions_issue_cases:
  assumes "check_actions self i s r = Inr r1" and "x \<in> set (issues r1)"
  shows "x \<in> set (issues r) \<or>
    (\<exists>kvs action a. s = PDict kvs \<and> map_of kvs (ustr ''Action'') = Some action \<and>
       PStr a \<in> set (as_list action) \<and>
       (a \<in> set (overly_permissive_actions self) \<and> x = permissive_issue i a \<or>
        a \<in> set (sensitive_actions self) \<and> x = sensitive_issue i a))"
  using check_actions_Inr [OF assms(1)] assms(2)
  by (auto simp add: check_sensitive_issues check_permissive_issues)

lemma check_resources_mono:
  assumes "check_resources i s r = Inr r1"
  shows "set (issues r) \<subseteq> set (issues r1)"
    and "set (recommendations r) \<subseteq> set (recommendations r1)"
    and "valid r1 \<Longrightarrow> valid r"
  using check_resources_Inr [OF assms]
  by (auto simp add: check_wildcard_issues check_wildcard_recommendations check_wildcard_valid)

lemma check_resources_issue_cases:
  assumes "check_resources i s r = Inr r1" and "x \<in> set (issues r1)"
  shows "x \<in> set (issues r) \<or> x = wildcard_issue i \<or> x = missing_resource_issue i"
  using check_resources_Inr [OF assms(1)] assms(2)
  by (auto simp add: check_wildcard_issues split: if_splits)

lemma check_statement_mono:
  assumes "check_statement self i s r = Inr r3"
  shows "set (issues r) \<subseteq> set (issues r3)"
    and "set (recommendations r) \<subseteq> set (recommendations r3)"
    and "valid r3 \<Longrightarrow> valid r"
proof -
  from assms obtain r1 r2 where a: "check_actions self i s r = Inr r1"
    and b: "check_resources i s r1 = Inr r2" and c: "check_condition i s r2 = Inr r3"
    by (rule check_statement_Inr)
  note c' = check_condition_Inr [OF c]
  show "set (issues r) \<subseteq> set (issues r3)"
    using check_actions_mono(1) [OF a] check_resources_mono(1) [OF b] c' by auto
  show "set (recommendations r) \<subseteq> set (recommendations r3)"
    using check_actions_mono(2) [OF a] check_resources_mono(2) [OF b] c' by auto
  show "valid r3 \<Longrightarrow> valid r"
    using check_actions_mono(3) [OF a] check_resources_mono(3) [OF b] c' by auto
qed

lemma check_statement_issue_cases:
  assumes "check_statement self i s r = Inr r3" and "x \<in> set (issues r3)"
  shows "x \<in> set (issues r) \<or>
    (\<exists>kvs action a. s = PDict kvs \<and> map_of kvs (ustr ''Action'') = Some action \<and>
       PStr a \<in> set (as_list action) \<and>
       (a \<in> set (overly_permissive_actions self) \<and> x = permissive_issue i a \<or>
        a \<in> set (sensitive_actions self) \<and> x = sensitive_issue i a)) \<or>
    x = wildcard_issue i \<or> x = missing_resource_issue i"
proof -
  from assms(1) obtain r1 r2 where a: "check_actions self i s r = Inr r1"
    and b: "check_resources i s r1 = Inr r2" and c: "check_condition i s r2 = Inr r3"
    by (rule check_statement_Inr)
  from assms(2) check_condition_Inr [OF c] have "x \<in> set (issues r2)"
    by simp
  from check_resources_issue_cases [OF b this]
  show ?thesis
    using check_actions_issue_cases [OF a, of x] by blast
qed

lemma check_statement_permissive:
  assumes "check_statement self i (PDict kvs) r = Inr r3"
    and "map_of kvs (ustr ''Action'') = Some action"
    and "PStr a \<in> set (as_list action)"
    and "a \<in> set (overly_permissive_actions self)"
  shows "permissive_issue i a \<in> set (issues r3)"
    and "permissive_recommendation a \<in> set (recommendations r3)"
    and "\<not> valid r3"
proof -
  from assms(1) obtain r1 r2 where a: "check_actions self i (PDict kvs) r = Inr r1"
    and b: "check_resources i (PDict kvs) r1 = Inr r2" and c: "check_condition i (PDict kvs) r2 = Inr r3"
    by (rule check_statement_Inr)
  from a assms(2) have r1: "r1 = check_sensitive self i (as_list action) (check_permissive self i (as_list action) r)"
    by (simp add: check_actions_dict)
  have "permissive_issue i a \<in> set (issues r1)"
    using assms(3,4) by (auto simp add: r1 check_sensitive_issues check_permissive_issues)
  then show "permissive_issue i a \<in> set (issues r3)"
    using check_resources_mono(1) [OF b] check_condition_Inr [OF c] by auto
  have "permissive_recommendation a \<in> set (recommendations r1)"
    using assms(3,4) by (auto simp add: r1 check_sensitive_recommendations check_permissive_recommendations)
  then show "permissive_recommendation a \<in> set (recommendations r3)"
    using check_resources_mono(2) [OF b] check_condition_Inr [OF c] by auto
  have "\<not> valid r1"
    using assms(3,4) by (auto simp add: r1 check_sensitive_valid check_permissive_valid)
  then show "\<not> valid r3"
    using check_resources_mono(3) [OF b] check_condition_Inr [OF c] by auto
qed

lemma check_statement_sensitive:
  assumes "check_statement self i (PDict kvs) r = Inr r3"
    and "map_of kvs (ustr ''Action'') = Some action"
    and "PStr a \<in> set (as_list action)"
    and "a \<in> set (sensitive_actions self)"
  shows "sensitive_issue i a \<in> set (issues r3)"
    and "sensitive_recommendation a \<in> set (recommendations r3)"
proof -
  from assms(1) obtain r1 r2 where a: "check_actions self i (PDict kvs) r = Inr r1"
    and b: "check_resources i (PDict kvs) r1 = Inr r2" and c: "check_condition i (PDict kvs) r2 = Inr r3"
    by (rule check_statement_Inr)
  from a assms(2) have r1: "r1 = check_sensitive self i (as_list action) (check_permissive self i (as_list action) r)"
    by (simp add: check_actions_dict)
  have "sensitive_issue i a \<in> set (issues r1)"
    using assms(3,4) by (auto simp add: r1 check_sensitive_issues)
  then show "sensitive_issue i a \<in> set (issues r3)"
    using check_resources_mono(1) [OF b] check_condition_Inr [OF c] by auto
  have "sensitive_recommendation a \<in> set (recommendations r1)"
    using assms(3,4) by (auto simp add: r1 check_sensitive_recommendations)
  then show "sensitive_recommendation a \<in> set (recommendations r3)"
    using check_resources_mono(2) [OF b] check_condition_Inr [OF c] by auto
qed

text \<open>A statement with no blocking finding leaves \<^verbatim>\<open>valid\<close> as it is.\<close>

lemma check_statement_valid_kept:
  assumes "check_statement self i (PDict kvs) r = Inr r3"
    and "map_of kvs (ustr ''Resource'') = Some resource"
    and "PStr (ustr ''*'') \<notin> set (as_list resource)"
    and "\<And>action a. map_of kvs (ustr ''Action'') = Some action \<Longrightarrow> PStr a \<in> set (as_list action) \<Longrightarrow>
           a \<notin> set (overly_permissive_actions self)"
  shows "valid r3 = valid r"
proof -
  from assms(1) obtain r1 r2 where a: "check_actions self i (PDict kvs) r = Inr r1"
    and b: "check_resources i (PDict kvs) r1 = Inr r2" and c: "check_condition i (PDict kvs) r2 = Inr r3"
    by (rule check_statement_Inr)
  have "valid r1 = valid r"
    using a assms(4)
    by (cases "map_of kvs (ustr ''Action'')")
      (auto simp add: check_actions_dict check_sensitive_valid check_permissive_valid)
  moreover have "valid r2 = valid r1"
    using b assms(2,3) by (auto simp add: check_resources_dict check_wildcard_valid)
  moreover have "valid r3 = valid r2"
    using check_condition_Inr [OF c] by simp
  ultimately show ?thesis by simp
qed

text \<open>The invariant of the report: it is valid or it has an issue.\<close>

lemma check_permissive_invariant:
  "valid r \<or> issues r \<noteq> [] \<Longrightarrow>
     valid (check_permissive self i actions r) \<or> issues (check_permissive self i actions r) \<noteq> []"
  by (induction actions arbitrary: r) (auto split: pyobj.splits)

lemma check_sensitive_invariant:
  "valid r \<or> issues r \<noteq> [] \<Longrightarrow>
     valid (check_sensitive self i actions r) \<or> issues (check_sensitive self i actions r) \<noteq> []"
  by (induction actions arbitrary: r) (auto split: pyobj.splits)

lemma check_wildcard_invariant:
  "valid r \<or> issues r \<noteq> [] \<Longrightarrow>
     valid (check_wildcard i resources r) \<or> issues (check_wildcard i resources r) \<noteq> []"
  by (induction resources arbitrary: r) auto

lemma check_statement_invariant:
  assumes "check_statement self i s r = Inr r3" and "valid r \<or> issues r \<noteq> []"
  shows "valid r3 \<or> issues r3 \<noteq> []"
proof -
  from assms(1) obtain r1 r2 where a: "check_actions self i s r = Inr r1"
    and b: "check_resources i s r1 = Inr r2" and c: "check_condition i s r2 = Inr r3"
    by (rule check_statement_Inr)
  have 1: "valid r1 \<or> issues r1 \<noteq> []"
    using check_actions_Inr [OF a] assms(2)
      check_sensitive_invariant check_permissive_invariant
    by blast
  have 2: "valid r2 \<or> issues r2 \<noteq> []"
    using check_resources_Inr [OF b] 1 check_wildcard_invariant [of r1]
    by auto
  show ?thesis
    using check_condition_Inr [OF c] 2 by auto
qed

section \<open>The loop over the statements\<close>

lemma analyze_statements_mono:
  assumes "analyze_statements self i ss r = Inr r'"
  shows "set (issues r) \<subseteq> set (issues r') \<and> set (recommendations r) \<subseteq> set (recommendations r') \<and>
    (valid r' \<longrightarrow> valid r)"
  using assms
proof (induction ss arbitrary: i r)
  case Nil
  then show ?case by simp
next
  case (Cons s ss)
  from Cons.prems obtain r1 where s: "check_statement self i s r = Inr r1"
    and rest: "analyze_statements self (i + 1) ss r1 = Inr r'"
    by (auto simp add: and_then_eq_Inr)
  from Cons.IH [OF rest] check_statement_mono [OF s]
  show ?case by blast
qed

lemma analyze_statements_dicts_total:
  assumes "list_all is_dict ss"
  shows "\<exists>r'. analyze_statements self i ss r = Inr r'"
  using assms
proof (induction ss arbitrary: i r)
  case Nil
  then show ?case by simp
next
  case (Cons s ss)
  from Cons.prems obtain kvs where "s = PDict kvs"
    by (cases s) simp_all
  then obtain r1 where "check_statement self i s r = Inr r1"
    using check_statement_dict_total by blast
  moreover from Cons.prems have "list_all is_dict ss" by simp
  from Cons.IH [OF this] obtain r' where "analyze_statements self (i + 1) ss r1 = Inr r'"
    by blast
  ultimately show ?case by simp
qed

lemma analyze_statements_invariant:
  assumes "analyze_statements self i ss r = Inr r'" and "valid r \<or> issues r \<noteq> []"
  shows "valid r' \<or> issues r' \<noteq> []"
  using assms
proof (induction ss arbitrary: i r)
  case Nil
  then show ?case by simp
next
  case (Cons s ss)
  from Cons.prems(1) obtain r1 where s: "check_statement self i s r = Inr r1"
    and rest: "analyze_statements self (i + 1) ss r1 = Inr r'"
    by (auto simp add: and_then_eq_Inr)
  from check_statement_invariant [OF s Cons.prems(2)] Cons.IH [OF rest]
  show ?case by blast
qed

lemma analyze_statements_permissive:
  assumes "analyze_statements self i ss r = Inr r'"
    and "k < length ss" and "ss ! k = PDict kvs"
    and "map_of kvs (ustr ''Action'') = Some action"
    and "PStr a \<in> set (as_list action)"
    and "a \<in> set (overly_permissive_actions self)"
  shows "permissive_issue (i + k) a \<in> set (issues r') \<and>
    permissive_recommendation a \<in> set (recommendations r') \<and> \<not> valid r'"
  using assms(1,2,3)
proof (induction ss arbitrary: i k r)
  case Nil
  then show ?case by simp
next
  case (Cons s ss)
  from Cons.prems(1) obtain r1 where s: "check_statement self i s r = Inr r1"
    and rest: "analyze_statements self (i + 1) ss r1 = Inr r'"
    by (auto simp add: and_then_eq_Inr)
  show ?case
  proof (cases k)
    case 0
    with Cons.prems(3) have "s = PDict kvs" by simp
    with s have "check_statement self i (PDict kvs) r = Inr r1" by simp
    from check_statement_permissive [OF this assms(4,5,6)] analyze_statements_mono [OF rest] 0
    show ?thesis by auto
  next
    case (Suc k')
    with Cons.prems(2,3) have "k' < length ss" "ss ! k' = PDict kvs" by simp_all
    from Cons.IH [OF rest this] Suc show ?thesis by simp
  qed
qed

lemma analyze_statements_sensitive:
  assumes "analyze_statements self i ss r = Inr r'"
    and "k < length ss" and "ss ! k = PDict kvs"
    and "map_of kvs (ustr ''Action'') = Some action"
    and "PStr a \<in> set (as_list action)"
    and "a \<in> set (sensitive_actions self)"
  shows "sensitive_issue (i + k) a \<in> set (issues r') \<and>
    sensitive_recommendation a \<in> set (recommendations r')"
  using assms(1,2,3)
proof (induction ss arbitrary: i k r)
  case Nil
  then show ?case by simp
next
  case (Cons s ss)
  from Cons.prems(1) obtain r1 where s: "check_statement self i s r = Inr r1"
    and rest: "analyze_statements self (i + 1) ss r1 = Inr r'"
    by (auto simp add: and_then_eq_Inr)
  show ?case
  proof (cases k)
    case 0
    with Cons.prems(3) have "s = PDict kvs" by simp
    with s have "check_statement self i (PDict kvs) r = Inr r1" by simp
    from check_statement_sensitive [OF this assms(4,5,6)] analyze_statements_mono [OF rest] 0
    show ?thesis by auto
  next
    case (Suc k')
    with Cons.prems(2,3) have "k' < length ss" "ss ! k' = PDict kvs" by simp_all
    from Cons.IH [OF rest this] Suc show ?thesis by simp
  qed
qed

text \<open>Where a permissive-action issue in the report comes from.\<close>

lemma analyze_statements_permissive_origin:
  assumes "analyze_statements self i ss r = Inr r'"
    and "permissive_issue n a \<in> set (issues r')"
  shows "permissive_issue n a \<in> set (issues r) \<or>
    (\<exists>k kvs action. k < length ss \<and> n = i + k \<and> ss ! k = PDict kvs \<and>
       map_of kvs (ustr ''Action'') = Some action \<and> PStr a \<in> set (as_list action) \<and>
       a \<in> set (overly_permissive_actions self))"
  using assms
proof (induction ss arbitrary: i r)
  case Nil
  then show ?case by simp
next
  case (Cons s ss)
  from Cons.prems(1) obtain r1 where s: "check_statement self i s r = Inr r1"
    and rest: "analyze_statements self (i + 1) ss r1 = Inr r'"
    by (auto simp add: and_then_eq_Inr)
  from Cons.IH [OF rest Cons.prems(2)]
  consider (here) "permissive_issue n a \<in> set (issues r1)"
    | (later) k kvs action where "k < length ss" "n = i + 1 + k" "ss ! k = PDict kvs"
        "map_of kvs (ustr ''Action'') = Some action" "PStr a \<in> set (as_list action)"
        "a \<in> set (overly_permissive_actions self)"
    by blast
  then show ?case
  proof cases
    case here
    from check_statement_issue_cases [OF s here]
    have "permissive_issue n a \<in> set (issues r) \<or>
      (\<exists>kvs action. n = i \<and> s = PDict kvs \<and> map_of kvs (ustr ''Action'') = Some action \<and>
         PStr a \<in> set (as_list action) \<and> a \<in> set (overly_permissive_actions self))"
      by (auto simp add: permissive_issue_eq permissive_issue_neq_sensitive
          permissive_issue_neq_wildcard permissive_issue_neq_missing_resource)
    then show ?thesis
    proof
      assume "permissive_issue n a \<in> set (issues r)"
      then show ?thesis by simp
    next
      assume "\<exists>kvs action. n = i \<and> s = PDict kvs \<and> map_of kvs (ustr ''Action'') = Some action \<and>
         PStr a \<in> set (as_list action) \<and> a \<in> set (overly_permissive_actions self)"
      then obtain kvs action where "n = i + 0" "(s # ss) ! 0 = PDict kvs"
        "map_of kvs (ustr ''Action'') = Some action" "PStr a \<in> set (as_list action)"
        "a \<in> set (overly_permissive_actions self)"
        by auto
      moreover have "0 < length (s # ss)" by simp
      ultimately show ?thesis by blast
    qed
  next
    case later
    then have "Suc k < length (s # ss)" "n = i + Suc k" "(s # ss) ! Suc k = PDict kvs"
      by simp_all
    with later(4,5,6) show ?thesis by blast
  qed
qed

text \<open>Statements with no blocking finding leave \<^verbatim>\<open>valid\<close> as it is.\<close>

lemma analyze_statements_valid_kept:
  assumes "analyze_statements self i ss r = Inr r'"
    and "\<And>s. s \<in> set ss \<Longrightarrow> \<exists>kvs resource. s = PDict kvs \<and>
           map_of kvs (ustr ''Resource'') = Some resource \<and> PStr (ustr ''*'') \<notin> set (as_list resource) \<and>
           (\<forall>action a. map_of kvs (ustr ''Action'') = Some action \<longrightarrow> PStr a \<in> set (as_list action) \<longrightarrow>
              a \<notin> set (overly_permissive_actions self))"
  shows "valid r' = valid r"
  using assms
proof (induction ss arbitrary: i r)
  case Nil
  then show ?case by simp
next
  case (Cons s ss)
  from Cons.prems(1) obtain r1 where s: "check_statement self i s r = Inr r1"
    and rest: "analyze_statements self (i + 1) ss r1 = Inr r'"
    by (auto simp add: and_then_eq_Inr)
  from Cons.prems(2) [of s] obtain kvs resource where d: "s = PDict kvs"
    and res: "map_of kvs (ustr ''Resource'') = Some resource" "PStr (ustr ''*'') \<notin> set (as_list resource)"
    and act: "\<And>action a. map_of kvs (ustr ''Action'') = Some action \<Longrightarrow> PStr a \<in> set (as_list action) \<Longrightarrow>
              a \<notin> set (overly_permissive_actions self)"
    by auto
  from s d have cs: "check_statement self i (PDict kvs) r = Inr r1" by simp
  have "valid r1 = valid r"
    using cs res act by (rule check_statement_valid_kept)
  moreover have "valid r' = valid r1"
    by (rule Cons.IH [OF rest]) (use Cons.prems(2) in auto)
  ultimately show ?case by simp
qed

section \<open>The whole validation\<close>

lemma validate_decoded_dict:
  "validate_decoded self (PDict kvs) =
     (case map_of kvs (ustr ''Statement'') of
        None \<Rightarrow>
          Inr (if map_of kvs (ustr ''Version'') = None
               then \<lparr> valid = False, issues = [missing_version_issue, missing_statement_issue],
                      recommendations = [missing_version_recommendation] \<rparr>
               else \<lparr> valid = False, issues = [missing_statement_issue], recommendations = [] \<rparr>)
      | Some statements \<Rightarrow>
          analyze_statements self 0 (as_list statements)
            (if map_of kvs (ustr ''Version'') = None
             then \<lparr> valid = False, issues = [missing_version_issue],
                    recommendations = [missing_version_recommendation] \<rparr>
             else \<lparr> valid = True, issues = [], recommendations = [] \<rparr>))"
  by (cases "map_of kvs (ustr ''Statement'')")
    (simp_all add: validate_decoded_def py_in_dict Let_def del: py_in.simps)

lemma validate_decoded_invariant:
  assumes "validate_decoded self policy = Inr r"
  shows "valid r \<or> issues r \<noteq> []"
proof -
  let ?r0 = "\<lparr> valid = True, issues = [], recommendations = [] \<rparr>"
  from assms obtain has_version has_statement where
    rest: "(if \<not> has_statement then
        Inr ((if \<not> has_version then
               ?r0\<lparr> issues := issues ?r0 @ [missing_version_issue],
                    recommendations := recommendations ?r0 @ [missing_version_recommendation],
                    valid := False \<rparr>
             else ?r0)\<lparr> issues := issues (if \<not> has_version then
               ?r0\<lparr> issues := issues ?r0 @ [missing_version_issue],
                    recommendations := recommendations ?r0 @ [missing_version_recommendation],
                    valid := False \<rparr>
             else ?r0) @ [missing_statement_issue], valid := False \<rparr>)
      else
        and_then (py_getitem policy (ustr ''Statement'')) (\<lambda>statements.
        analyze_statements self 0 (as_list statements) (if \<not> has_version then
               ?r0\<lparr> issues := issues ?r0 @ [missing_version_issue],
                    recommendations := recommendations ?r0 @ [missing_version_recommendation],
                    valid := False \<rparr>
             else ?r0))) = Inr r"
    unfolding validate_decoded_def Let_def and_then_eq_Inr by blast
  show ?thesis
  proof (cases has_statement)
    case False
    with rest show ?thesis by auto
  next
    case True
    with rest obtain statements where
      "analyze_statements self 0 (as_list statements) (if \<not> has_version then
               ?r0\<lparr> issues := issues ?r0 @ [missing_version_issue],
                    recommendations := recommendations ?r0 @ [missing_version_recommendation],
                    valid := False \<rparr>
             else ?r0) = Inr r"
      by (auto simp add: and_then_eq_Inr)
    then show ?thesis
      by (rule analyze_statements_invariant) simp
  qed
qed

lemma validate_policy_Inr:
  "validate_policy_try lim self x = Inr r \<Longrightarrow> validate_policy lim self x = r"
  by (simp add: validate_policy_def)

lemma validate_policy_Inl:
  "validate_policy_try lim self x = Inl e \<Longrightarrow> validate_policy lim self x = validation_error_report e"
  by (simp add: validate_policy_def)

lemma validate_policy_via_decoded:
  assumes "parse_policy_json lim x = Inr policy"
  shows "validate_policy_try lim self x = validate_decoded self policy"
  using assms by (simp add: validate_policy_try_def)

lemma validation_error_report_shape:
  "\<not> valid (validation_error_report e) \<and> length (issues (validation_error_report e)) = 1 \<and>
   length (recommendations (validation_error_report e)) = 1"
  by (cases e) simp_all

text \<open>When every statement is an object, no step of the validation raises.\<close>

lemma validate_policy_try_dicts:
  assumes "parse_policy_json lim policy_json = Inr (PDict kvs)"
    and "map_of kvs (ustr ''Statement'') = Some statements"
    and "list_all is_dict (as_list statements)"
  shows "\<exists>r. validate_policy_try lim self policy_json = Inr r"
proof -
  have "validate_policy_try lim self policy_json = validate_decoded self (PDict kvs)"
    using assms(1) by (rule validate_policy_via_decoded)
  moreover obtain r where "analyze_statements self 0 (as_list statements)
      (if map_of kvs (ustr ''Version'') = None
       then \<lparr> valid = False, issues = [missing_version_issue],
              recommendations = [missing_version_recommendation] \<rparr>
       else \<lparr> valid = True, issues = [], recommendations = [] \<rparr>) = Inr r"
    using analyze_statements_dicts_total [OF assms(3)] by blast
  ultimately show ?thesis
    using assms(2) by (simp add: validate_decoded_dict)
qed

section \<open>The decoder consumes what it reads\<close>

lemma scanstring_shorter:
  "scanstring s = Some (str, r) \<Longrightarrow> length r < length s"
proof (induction s arbitrary: str r rule: scanstring.induct)
  case 1
  then show ?case by simp
next
  case (2 c cs)
  show ?case
    using "2.prems" "2.IH"
    by (fastforce split: if_splits list.splits option.splits)
qed

lemma skip_ws_shorter: "length (skip_ws s) \<le> length s"
  by (simp add: skip_ws_def length_dropWhile_le)

lemma skip_ws_Cons_shorter: "skip_ws s = n # r \<Longrightarrow> length r < length s"
  using skip_ws_shorter [of s] by simp

lemma match_number_shorter:
  assumes "match_number s = Some (g, r)"
  shows "length r < length s"
proof -
  define s1 where "s1 = drop (length (takeWhile (\<lambda>c. c = 0x2D) (take 1 s))) s"
  define intpart where "intpart =
    (case s1 of
       [] \<Rightarrow> []
     | d # ds \<Rightarrow> if d = 0x30 then [d]
                else if is_digit d then d # takeWhile is_digit ds
                else [])"
  from assms have "intpart \<noteq> []"
    unfolding match_number_def Let_def s1_def [symmetric] intpart_def [symmetric]
    by (simp split: if_splits)
  moreover have "length intpart \<le> length s1"
    unfolding intpart_def
    by (cases s1) (simp_all add: length_takeWhile_le)
  ultimately have "length (drop (length intpart) s1) < length s1"
    by (cases intpart) simp_all
  moreover from assms have "length r \<le> length (drop (length intpart) s1)"
    unfolding match_number_def Let_def s1_def [symmetric] intpart_def [symmetric]
    by (auto split: if_splits)
  moreover have "length s1 \<le> length s"
    by (simp add: s1_def)
  ultimately show ?thesis by simp
qed

lemma scan_consumes:
  "scan_once lim d s = Inr (v, r) \<Longrightarrow> length r < length s"
  "JSONArray_loop lim' d' s' = Inr (vs, r') \<Longrightarrow> length r' < length s'"
  "JSONObject_loop lim'' d'' s'' = Inr (ps, r'') \<Longrightarrow> length r'' < length s''"
proof (induction lim d s and lim' d' s' and lim'' d'' s'' arbitrary: v r and vs r' and ps r''
    rule: scan_once_JSONArray_loop_JSONObject_loop.induct)
  case (1 lim d)
  then show ?case by simp
next
  case (2 lim d c cs)
  show ?case
  proof (cases "c = 0x22")
    case True
    with "2.prems" obtain str where "scanstring cs = Some (str, r)"
      by (auto split: option.splits)
    from scanstring_shorter [OF this] show ?thesis by simp
  next
    case quote: False
    show ?thesis
    proof (cases "c = 0x7B")
      case True
      with quote "2.prems" have d: "\<not> d = 0"
        by (auto split: if_splits)
      with quote True "2.prems" obtain n rest where sk: "skip_ws cs = n # rest"
        by (cases "skip_ws cs") auto
      show ?thesis
      proof (cases "n = 0x7D")
        case True
        with quote \<open>c = 0x7B\<close> d sk "2.prems" have "r = rest" by simp
        with skip_ws_Cons_shorter [OF sk] show ?thesis by simp
      next
        case False
        with quote \<open>c = 0x7B\<close> d sk "2.prems" obtain pairs where n: "n = 0x22"
          and "JSONObject_loop lim (d - 1) rest = Inr (pairs, r)"
          by (auto split: if_splits sum.splits)
        from "2.IH"(1) [OF quote \<open>c = 0x7B\<close> d sk False n this(2)] skip_ws_Cons_shorter [OF sk]
        show ?thesis by simp
      qed
    next
      case brace: False
      show ?thesis
      proof (cases "c = 0x5B")
        case True
        with quote brace "2.prems" have d: "\<not> d = 0"
          by (auto split: if_splits)
        with quote brace True "2.prems" obtain n rest where sk: "skip_ws cs = n # rest"
          by (cases "skip_ws cs") auto
        show ?thesis
        proof (cases "n = 0x5D")
          case True
          with quote brace \<open>c = 0x5B\<close> d sk "2.prems" have "r = rest" by simp
          with skip_ws_Cons_shorter [OF sk] show ?thesis by simp
        next
          case False
          with quote brace \<open>c = 0x5B\<close> d sk "2.prems" obtain vals where
            "JSONArray_loop lim (d - 1) (n # rest) = Inr (vals, r)"
            by (auto split: sum.splits)
          from "2.IH"(2) [OF quote brace \<open>c = 0x5B\<close> d sk False this] skip_ws_Cons_shorter [OF sk]
          show ?thesis by simp
        qed
      next
        case False
        have lit: "length (drop k (c # cs)) < length (c # cs)" if "0 < k" for k
          using that by simp
        have num: "length r < length (c # cs)" if "match_number (c # cs) = Some (g, r)" for g
          using match_number_shorter [OF that] .
        from quote brace False "2.prems" show ?thesis
          using num lit
          by (auto split: if_splits option.splits sum.splits)
      qed
    qed
  qed
next
  case (3 lim d s)
  from "3.prems" obtain v s1 where one: "scan_once lim d s = Inr (v, s1)"
    by (cases "scan_once lim d s") (auto simp add: JSONArray_loop.simps [of lim d s])
  from "3.IH"(1) [OF this] have s1: "length s1 < length s" .
  from "3.prems" one obtain n s2 where sk: "skip_ws s1 = n # s2"
    by (cases "skip_ws s1") (auto simp add: JSONArray_loop.simps [of lim d s])
  show ?case
  proof (cases "n = 0x5D")
    case True
    with "3.prems" one sk have "r' = s2"
      by (simp add: JSONArray_loop.simps [of lim d s])
    with skip_ws_Cons_shorter [OF sk] s1 show ?thesis by simp
  next
    case False
    with "3.prems" one sk obtain vals where n: "n = 0x2C"
      and g: "length (skip_ws s2) < length s"
      and "JSONArray_loop lim d (skip_ws s2) = Inr (vals, r')"
      by (auto simp add: JSONArray_loop.simps [of lim d s] split: if_splits sum.splits)
    from "3.IH"(2) [OF one refl sk False n g this(3)] g
    show ?thesis by simp
  qed
next
  case (4 lim d s)
  from "4.prems" obtain key s1 where k: "scanstring s = Some (key, s1)"
    by (cases "scanstring s") (auto simp add: JSONObject_loop.simps [of lim d s])
  from "4.prems" k obtain n s2 where sk1: "skip_ws s1 = n # s2"
    by (cases "skip_ws s1") (auto simp add: JSONObject_loop.simps [of lim d s])
  from "4.prems" k sk1 have colon: "\<not> n \<noteq> 0x3A"
    by (auto simp add: JSONObject_loop.simps [of lim d s] split: if_splits)
  from "4.prems" k sk1 colon obtain v s3 where one: "scan_once lim d (skip_ws s2) = Inr (v, s3)"
    by (cases "scan_once lim d (skip_ws s2)") (auto simp add: JSONObject_loop.simps [of lim d s])
  from "4.IH"(1) [OF k refl sk1 colon one]
  have "length s3 < length (skip_ws s2)" .
  with skip_ws_shorter [of s2] skip_ws_Cons_shorter [OF sk1] scanstring_shorter [OF k]
  have s3: "length s3 < length s" by simp
  from "4.prems" k sk1 colon one obtain m s4 where sk3: "skip_ws s3 = m # s4"
    by (cases "skip_ws s3") (auto simp add: JSONObject_loop.simps [of lim d s])
  show ?case
  proof (cases "m = 0x7D")
    case True
    with "4.prems" k sk1 colon one sk3 have "r'' = s4"
      by (simp add: JSONObject_loop.simps [of lim d s])
    with skip_ws_Cons_shorter [OF sk3] s3 show ?thesis by simp
  next
    case False
    with "4.prems" k sk1 colon one sk3 have comma: "m = 0x2C"
      by (auto simp add: JSONObject_loop.simps [of lim d s] split: if_splits)
    with "4.prems" k sk1 colon one sk3 False obtain q s5 where sk4: "skip_ws s4 = q # s5"
      by (cases "skip_ws s4") (auto simp add: JSONObject_loop.simps [of lim d s])
    with "4.prems" k sk1 colon one sk3 False comma obtain pairs where
      g: "q = 0x22 \<and> length s5 < length s" and "JSONObject_loop lim d s5 = Inr (pairs, r'')"
      by (auto simp add: JSONObject_loop.simps [of lim d s] split: if_splits sum.splits)
    from "4.IH"(2) [OF k refl sk1 colon one refl sk3 False comma sk4 g this(2)] g
    show ?thesis by simp
  qed
qed

text \<open>The loops of \<^verbatim>\<open>JSONArray\<close> and \<^verbatim>\<open>JSONObject\<close> without the comparisons of lengths.\<close>

lemma JSONArray_loop_unguarded:
  "JSONArray_loop lim d s =
     (case scan_once lim d s of
        Inl e \<Rightarrow> Inl e
      | Inr (v, s1) \<Rightarrow>
          (case skip_ws s1 of
             [] \<Rightarrow> Inl JSONDecodeError
           | n # s2 \<Rightarrow>
               if n = 0x5D then Inr ([v], s2)
               else if n = 0x2C then
                 (case JSONArray_loop lim d (skip_ws s2) of
                    Inl e \<Rightarrow> Inl e
                  | Inr (vals, r) \<Rightarrow> Inr (v # vals, r))
               else Inl JSONDecodeError))"
proof (cases "scan_once lim d s")
  case (Inl e)
  then show ?thesis by (simp add: JSONArray_loop.simps [of lim d s])
next
  case (Inr p)
  obtain v s1 where p: "p = (v, s1)" by (cases p)
  show ?thesis
  proof (cases "skip_ws s1")
    case Nil
    with Inr p show ?thesis by (simp add: JSONArray_loop.simps [of lim d s])
  next
    case (Cons n s2)
    from Inr p have "length s1 < length s"
      using scan_consumes(1) by simp
    with skip_ws_Cons_shorter [OF Cons] skip_ws_shorter [of s2]
    have "length (skip_ws s2) < length s" by simp
    with Inr p Cons show ?thesis by (simp add: JSONArray_loop.simps [of lim d s])
  qed
qed

lemma JSONObject_loop_unguarded:
  "JSONObject_loop lim d s =
     (case scanstring s of
        None \<Rightarrow> Inl JSONDecodeError
      | Some (key, s1) \<Rightarrow>
          (case skip_ws s1 of
             [] \<Rightarrow> Inl JSONDecodeError
           | n # s2 \<Rightarrow>
               if n \<noteq> 0x3A then Inl JSONDecodeError
               else
                 (case scan_once lim d (skip_ws s2) of
                    Inl e \<Rightarrow> Inl e
                  | Inr (v, s3) \<Rightarrow>
                      (case skip_ws s3 of
                         [] \<Rightarrow> Inl JSONDecodeError
                       | m # s4 \<Rightarrow>
                           if m = 0x7D then Inr ([(key, v)], s4)
                           else if m = 0x2C then
                             (case skip_ws s4 of
                                [] \<Rightarrow> Inl JSONDecodeError
                              | q # s5 \<Rightarrow>
                                  if q = 0x22
                                  then (case JSONObject_loop lim d s5 of
                                          Inl e \<Rightarrow> Inl e
                                        | Inr (pairs, r) \<Rightarrow> Inr ((key, v) # pairs, r))
                                  else Inl JSONDecodeError)
                           else Inl JSONDecodeError))))"
proof -
  have guard: "length s5 < length s"
    if "scanstring s = Some (key, s1)" "skip_ws s1 = n # s2" "scan_once lim d (skip_ws s2) = Inr (v, s3)"
      "skip_ws s3 = m # s4" "skip_ws s4 = q # s5" for key s1 n s2 v s3 m s4 q s5
    using scanstring_shorter [OF that(1)] skip_ws_Cons_shorter [OF that(2)] skip_ws_shorter [of s2]
      scan_consumes(1) [OF that(3)] skip_ws_Cons_shorter [OF that(4)] skip_ws_Cons_shorter [OF that(5)]
    by simp
  show ?thesis
    by (subst JSONObject_loop.simps)
      (auto split: option.splits list.splits sum.splits simp add: guard)
qed

text \<open>With no limit on the digits, the conversion of a matched number never raises.\<close>

lemma parse_number_unlimited:
  "int_max_str_digits lim = 0 \<Longrightarrow> \<exists>v. parse_number lim g = Inr v"
  by (cases g) (simp add: parse_int_def Let_def)

section \<open>The store: what a call changes\<close>

lemma unchanged_below_refl: "unchanged_below n h h"
  by (simp add: unchanged_below_def)

lemma unchanged_below_trans:
  assumes "unchanged_below n h1 h2" and "unchanged_below m h2 h3" and "n \<le> m"
  shows "unchanged_below n h1 h3"
  using assms unfolding unchanged_below_def
  by (metis le_trans less_le_trans)

lemma unchanged_below_alloc:
  assumes "alloc c h = (a, h')"
  shows "unchanged_below n h h'" and "a = length h" and "length h' = Suc (length h)" and "h' ! a = c"
  using assms by (auto simp add: alloc_def unchanged_below_def nth_append)

lemma attr_unchanged:
  assumes "instance_ok h0 n self" and "unchanged_below n h0 h"
  shows "attr_overly_permissive_actions h self = attr_overly_permissive_actions h0 self"
    and "attr_sensitive_actions h self = attr_sensitive_actions h0 self"
  using assms
  by (auto simp add: instance_ok_def unchanged_below_def attr_overly_permissive_actions_def
      attr_sensitive_actions_def cell_at_def list_at_def)

lemma instance_at_unchanged:
  assumes "instance_ok h0 n self" and "unchanged_below n h0 h"
  shows "instance_at h self = instance_at h0 self"
  using attr_unchanged [OF assms] by (simp add: instance_at_def)

lemma instance_ok_later:
  assumes "instance_ok h0 n self" and "unchanged_below n h0 h" and "n \<le> m" and "m \<le> length h"
  shows "instance_ok h m self"
  using assms unfolding instance_ok_def unchanged_below_def
  by (metis less_le_trans)

text \<open>The three writes of the method change the objects of \<^verbatim>\<open>results\<close> and nothing else.\<close>

lemma results_append_issue_refines:
  assumes "results_ok h n res" and "unchanged_below n h0 h"
  shows "results_ok (results_append_issue res m h) n res"
    and "unchanged_below n h0 (results_append_issue res m h)"
    and "report_at (results_append_issue res m h) res =
           (report_at h res)\<lparr> issues := issues (report_at h res) @ [m] \<rparr>"
proof -
  from assms(1) obtain v ia ra xs ys where c: "res < length h" "n \<le> res"
    "h ! res = ResultsCell v ia ra" "ia < length h" "ra < length h" "n \<le> ia" "n \<le> ra" "ia \<noteq> ra"
    "h ! ia = ListCell xs" "h ! ra = ListCell ys"
    unfolding results_ok_def by blast
  then have ne: "res \<noteq> ia" by auto
  have eq: "results_append_issue res m h = h[ia := ListCell (xs @ [m])]"
    using c by (simp add: results_append_issue_def list_append_def cell_at_def)
  show "results_ok (results_append_issue res m h) n res"
    unfolding eq results_ok_def using c ne by auto
  show "unchanged_below n h0 (results_append_issue res m h)"
    unfolding eq using assms(2) c by (auto simp add: unchanged_below_def)
  show "report_at (results_append_issue res m h) res =
           (report_at h res)\<lparr> issues := issues (report_at h res) @ [m] \<rparr>"
    unfolding eq using c ne by (simp add: report_at_def cell_at_def list_at_def)
qed

lemma results_append_recommendation_refines:
  assumes "results_ok h n res" and "unchanged_below n h0 h"
  shows "results_ok (results_append_recommendation res m h) n res"
    and "unchanged_below n h0 (results_append_recommendation res m h)"
    and "report_at (results_append_recommendation res m h) res =
           (report_at h res)\<lparr> recommendations := recommendations (report_at h res) @ [m] \<rparr>"
proof -
  from assms(1) obtain v ia ra xs ys where c: "res < length h" "n \<le> res"
    "h ! res = ResultsCell v ia ra" "ia < length h" "ra < length h" "n \<le> ia" "n \<le> ra" "ia \<noteq> ra"
    "h ! ia = ListCell xs" "h ! ra = ListCell ys"
    unfolding results_ok_def by blast
  then have ne: "res \<noteq> ra" by auto
  have eq: "results_append_recommendation res m h = h[ra := ListCell (ys @ [m])]"
    using c by (simp add: results_append_recommendation_def list_append_def cell_at_def)
  show "results_ok (results_append_recommendation res m h) n res"
    unfolding eq results_ok_def using c ne by auto
  show "unchanged_below n h0 (results_append_recommendation res m h)"
    unfolding eq using assms(2) c by (auto simp add: unchanged_below_def)
  show "report_at (results_append_recommendation res m h) res =
           (report_at h res)\<lparr> recommendations := recommendations (report_at h res) @ [m] \<rparr>"
    unfolding eq using c ne by (simp add: report_at_def cell_at_def list_at_def)
qed

lemma results_set_valid_refines:
  assumes "results_ok h n res" and "unchanged_below n h0 h"
  shows "results_ok (results_set_valid res b h) n res"
    and "unchanged_below n h0 (results_set_valid res b h)"
    and "report_at (results_set_valid res b h) res = (report_at h res)\<lparr> valid := b \<rparr>"
proof -
  from assms(1) obtain v ia ra xs ys where c: "res < length h" "n \<le> res"
    "h ! res = ResultsCell v ia ra" "ia < length h" "ra < length h" "n \<le> ia" "n \<le> ra" "ia \<noteq> ra"
    "h ! ia = ListCell xs" "h ! ra = ListCell ys"
    unfolding results_ok_def by blast
  then have ne: "res \<noteq> ia" "res \<noteq> ra" by auto
  have eq: "results_set_valid res b h = h[res := ResultsCell b ia ra]"
    using c by (simp add: results_set_valid_def cell_at_def)
  show "results_ok (results_set_valid res b h) n res"
    unfolding eq results_ok_def using c ne by auto
  show "unchanged_below n h0 (results_set_valid res b h)"
    unfolding eq using assms(2) c by (auto simp add: unchanged_below_def)
  show "report_at (results_set_valid res b h) res = (report_at h res)\<lparr> valid := b \<rparr>"
    unfolding eq using c ne by (simp add: report_at_def cell_at_def list_at_def)
qed

text \<open>An issue, a recommendation and \<^verbatim>\<open>valid = False\<close>, as the blocking findings write them.\<close>

lemma blocking_finding_refines:
  fixes im rm :: pystr
  assumes "results_ok h n res" and "unchanged_below n h0 h"
  defines "h' \<equiv> results_set_valid res False
      (results_append_recommendation res rm (results_append_issue res im h))"
  shows "results_ok h' n res"
    and "unchanged_below n h0 h'"
    and "report_at h' res =
           (report_at h res)\<lparr> issues := issues (report_at h res) @ [im],
              recommendations := recommendations (report_at h res) @ [rm], valid := False \<rparr>"
proof -
  note a = results_append_issue_refines [OF assms(1,2), where m = im]
  note b = results_append_recommendation_refines [OF a(1,2), where m = rm]
  note c = results_set_valid_refines [OF b(1,2), where b = False]
  show "results_ok h' n res" unfolding h'_def by (rule c(1))
  show "unchanged_below n h0 h'" unfolding h'_def by (rule c(2))
  show "report_at h' res =
           (report_at h res)\<lparr> issues := issues (report_at h res) @ [im],
              recommendations := recommendations (report_at h res) @ [rm], valid := False \<rparr>"
    unfolding h'_def by (simp add: a(3) b(3) c(3))
qed

section \<open>The store: the loops compute the report of the value-level functions\<close>

lemma check_permissive_heap_refines:
  assumes "instance_ok h0 n self" and "results_ok h n res" and "unchanged_below n h0 h"
  shows "results_ok (check_permissive_heap self i actions res h) n res \<and>
    unchanged_below n h0 (check_permissive_heap self i actions res h) \<and>
    report_at (check_permissive_heap self i actions res h) res =
      check_permissive (instance_at h0 self) i actions (report_at h res)"
  using assms(2,3)
proof (induction actions arbitrary: h)
  case Nil
  then show ?case by simp
next
  case (Cons action actions)
  have attr: "attr_overly_permissive_actions h self = overly_permissive_actions (instance_at h0 self)"
    using attr_unchanged(1) [OF assms(1) Cons.prems(2)] by (simp add: instance_at_def)
  show ?case
  proof (cases "\<exists>a. action = PStr a \<and> a \<in> set (overly_permissive_actions (instance_at h0 self))")
    case True
    then obtain a where a: "action = PStr a" "a \<in> set (overly_permissive_actions (instance_at h0 self))"
      by blast
    note f = blocking_finding_refines [OF Cons.prems,
        where rm = "permissive_recommendation a" and im = "permissive_issue i a"]
    from Cons.IH [OF f(1,2)] a attr f(3) show ?thesis by simp
  next
    case False
    with Cons.IH [OF Cons.prems] attr show ?thesis
      by (cases action) auto
  qed
qed

lemma check_sensitive_heap_refines:
  assumes "instance_ok h0 n self" and "results_ok h n res" and "unchanged_below n h0 h"
  shows "results_ok (check_sensitive_heap self i actions res h) n res \<and>
    unchanged_below n h0 (check_sensitive_heap self i actions res h) \<and>
    report_at (check_sensitive_heap self i actions res h) res =
      check_sensitive (instance_at h0 self) i actions (report_at h res)"
  using assms(2,3)
proof (induction actions arbitrary: h)
  case Nil
  then show ?case by simp
next
  case (Cons action actions)
  have attr: "attr_sensitive_actions h self = sensitive_actions (instance_at h0 self)"
    using attr_unchanged(2) [OF assms(1) Cons.prems(2)] by (simp add: instance_at_def)
  show ?case
  proof (cases "\<exists>a. action = PStr a \<and> a \<in> set (sensitive_actions (instance_at h0 self))")
    case True
    then obtain a where a: "action = PStr a" "a \<in> set (sensitive_actions (instance_at h0 self))"
      by blast
    note f = results_append_issue_refines [OF Cons.prems, where m = "sensitive_issue i a"]
    note g = results_append_recommendation_refines [OF f(1,2), where m = "sensitive_recommendation a"]
    from Cons.IH [OF g(1,2)] a attr f(3) g(3) show ?thesis by simp
  next
    case False
    with Cons.IH [OF Cons.prems] attr show ?thesis
      by (cases action) auto
  qed
qed

lemma check_wildcard_heap_refines:
  assumes "results_ok h n res" and "unchanged_below n h0 h"
  shows "results_ok (check_wildcard_heap i resources res h) n res \<and>
    unchanged_below n h0 (check_wildcard_heap i resources res h) \<and>
    report_at (check_wildcard_heap i resources res h) res =
      check_wildcard i resources (report_at h res)"
  using assms
proof (induction resources arbitrary: h)
  case Nil
  then show ?case by simp
next
  case (Cons resource resources)
  show ?case
  proof (cases "resource = PStr (ustr ''*'')")
    case True
    note f = blocking_finding_refines [OF Cons.prems,
        where rm = wildcard_recommendation and im = "wildcard_issue i"]
    from Cons.IH [OF f(1,2)] True f(3) show ?thesis by simp
  next
    case False
    with Cons.IH [OF Cons.prems] show ?thesis by simp
  qed
qed

section \<open>The store: one statement, all statements, the whole call\<close>

lemma check_actions_heap_refines:
  assumes "instance_ok h0 n self" and "results_ok h n res" and "unchanged_below n h0 h"
    and "check_actions_heap self i s res h = (eo, h')"
  shows "results_ok h' n res \<and> unchanged_below n h0 h' \<and>
    check_actions (instance_at h0 self) i s (report_at h res) =
      (case eo of None \<Rightarrow> Inr (report_at h' res) | Some e \<Rightarrow> Inl e)"
proof (cases "py_in (ustr ''Action'') s")
  case (Inl e)
  with assms show ?thesis
    by (auto simp add: check_actions_heap_def check_actions_def)
next
  case (Inr has_action)
  show ?thesis
  proof (cases has_action)
    case False
    with Inr assms show ?thesis
      by (auto simp add: check_actions_heap_def check_actions_def)
  next
    case True
    show ?thesis
    proof (cases "py_getitem s (ustr ''Action'')")
      case (Inl e)
      with Inr True assms show ?thesis
        by (auto simp add: check_actions_heap_def check_actions_def)
    next
      case getitem: (Inr action)
      note p = check_permissive_heap_refines [OF assms(1,2,3), of i "as_list action"]
      from p have p1: "results_ok (check_permissive_heap self i (as_list action) res h) n res"
        and p2: "unchanged_below n h0 (check_permissive_heap self i (as_list action) res h)"
        by simp_all
      note q = check_sensitive_heap_refines [OF assms(1) p1 p2, of i "as_list action"]
      from Inr True getitem assms(4) have "eo = None"
        and "h' = check_sensitive_heap self i (as_list action) res
                   (check_permissive_heap self i (as_list action) res h)"
        by (auto simp add: check_actions_heap_def)
      with p q Inr True getitem show ?thesis
        by (simp add: check_actions_def)
    qed
  qed
qed

lemma check_resources_heap_refines:
  assumes "results_ok h n res" and "unchanged_below n h0 h"
    and "check_resources_heap i s res h = (eo, h')"
  shows "results_ok h' n res \<and> unchanged_below n h0 h' \<and>
    check_resources i s (report_at h res) =
      (case eo of None \<Rightarrow> Inr (report_at h' res) | Some e \<Rightarrow> Inl e)"
proof (cases "py_in (ustr ''Resource'') s")
  case (Inl e)
  with assms show ?thesis
    by (auto simp add: check_resources_heap_def check_resources_def)
next
  case (Inr has_resource)
  show ?thesis
  proof (cases has_resource)
    case False
    note f = blocking_finding_refines [OF assms(1,2),
        where rm = missing_resource_recommendation and im = "missing_resource_issue i"]
    from Inr False assms(3) have "eo = None"
      and "h' = results_set_valid res False
                 (results_append_recommendation res missing_resource_recommendation
                   (results_append_issue res (missing_resource_issue i) h))"
      by (auto simp add: check_resources_heap_def)
    with f Inr False show ?thesis
      by (simp add: check_resources_def)
  next
    case True
    show ?thesis
    proof (cases "py_getitem s (ustr ''Resource'')")
      case (Inl e)
      with Inr True assms show ?thesis
        by (auto simp add: check_resources_heap_def check_resources_def)
    next
      case getitem: (Inr resource)
      note w = check_wildcard_heap_refines [OF assms(1,2), of i "as_list resource"]
      from Inr True getitem assms(3) have "eo = None"
        and "h' = check_wildcard_heap i (as_list resource) res h"
        by (auto simp add: check_resources_heap_def)
      with w Inr True getitem show ?thesis
        by (simp add: check_resources_def)
    qed
  qed
qed

lemma check_condition_heap_refines:
  assumes "results_ok h n res" and "unchanged_below n h0 h"
    and "check_condition_heap i s res h = (eo, h')"
  shows "results_ok h' n res \<and> unchanged_below n h0 h' \<and>
    check_condition i s (report_at h res) =
      (case eo of None \<Rightarrow> Inr (report_at h' res) | Some e \<Rightarrow> Inl e)"
proof (cases "py_in (ustr ''Condition'') s")
  case (Inl e)
  with assms show ?thesis
    by (auto simp add: check_condition_heap_def check_condition_def)
next
  case (Inr has_condition)
  show ?thesis
  proof (cases has_condition)
    case True
    with Inr assms show ?thesis
      by (auto simp add: check_condition_heap_def check_condition_def)
  next
    case False
    note f = results_append_recommendation_refines [OF assms(1,2), where m = "condition_recommendation i"]
    from Inr False assms(3) have "eo = None"
      and "h' = results_append_recommendation res (condition_recommendation i) h"
      by (auto simp add: check_condition_heap_def)
    with f Inr False show ?thesis
      by (simp add: check_condition_def)
  qed
qed

lemma check_statement_heap_refines:
  assumes "instance_ok h0 n self" and "results_ok h n res" and "unchanged_below n h0 h"
    and "check_statement_heap self i s res h = (eo, h')"
  shows "results_ok h' n res \<and> unchanged_below n h0 h' \<and>
    check_statement (instance_at h0 self) i s (report_at h res) =
      (case eo of None \<Rightarrow> Inr (report_at h' res) | Some e \<Rightarrow> Inl e)"
proof -
  obtain e1 h1 where a: "check_actions_heap self i s res h = (e1, h1)"
    by (cases "check_actions_heap self i s res h")
  note ra = check_actions_heap_refines [OF assms(1,2,3) a]
  show ?thesis
  proof (cases e1)
    case (Some e)
    with a assms(4) have "eo = Some e" "h' = h1"
      by (simp_all add: check_statement_heap_def)
    with ra Some show ?thesis
      by (simp add: check_statement_def)
  next
    case None
    note e1 = None
    from ra have ok1: "results_ok h1 n res" and un1: "unchanged_below n h0 h1" by simp_all
    obtain e2 h2 where b: "check_resources_heap i s res h1 = (e2, h2)"
      by (cases "check_resources_heap i s res h1")
    note rb = check_resources_heap_refines [OF ok1 un1 b]
    show ?thesis
    proof (cases e2)
      case (Some e)
      with a e1 b assms(4) have "eo = Some e" "h' = h2"
        by (simp_all add: check_statement_heap_def)
      with ra rb e1 Some show ?thesis
        by (simp add: check_statement_def)
    next
      case None
      from rb have ok2: "results_ok h2 n res" and un2: "unchanged_below n h0 h2" by simp_all
      from a e1 b None assms(4) have c: "check_condition_heap i s res h2 = (eo, h')"
        by (simp add: check_statement_heap_def)
      note rc = check_condition_heap_refines [OF ok2 un2 c]
      with ra rb e1 None show ?thesis
        by (simp add: check_statement_def)
    qed
  qed
qed

lemma analyze_statements_heap_refines:
  assumes "instance_ok h0 n self" and "results_ok h n res" and "unchanged_below n h0 h"
    and "analyze_statements_heap self i ss res h = (eo, h')"
  shows "results_ok h' n res \<and> unchanged_below n h0 h' \<and>
    analyze_statements (instance_at h0 self) i ss (report_at h res) =
      (case eo of None \<Rightarrow> Inr (report_at h' res) | Some e \<Rightarrow> Inl e)"
  using assms(2,3,4)
proof (induction ss arbitrary: i h)
  case Nil
  then show ?case by simp
next
  case (Cons s ss)
  obtain e1 h1 where a: "check_statement_heap self i s res h = (e1, h1)"
    by (cases "check_statement_heap self i s res h")
  note ra = check_statement_heap_refines [OF assms(1) Cons.prems(1,2) a]
  show ?case
  proof (cases e1)
    case (Some e)
    with a Cons.prems(3) have "eo = Some e" "h' = h1" by simp_all
    with ra Some show ?thesis by simp
  next
    case None
    from ra have ok1: "results_ok h1 n res" and un1: "unchanged_below n h0 h1" by simp_all
    from a None Cons.prems(3) have "analyze_statements_heap self (i + 1) ss res h1 = (eo, h')"
      by simp
    from Cons.IH [OF ok1 un1 this] ra None show ?thesis by simp
  qed
qed

text \<open>A new dict with two new lists.\<close>

lemma new_results_fresh:
  assumes "new_results v iss recs h = (res, h')"
  shows "results_ok h' (length h) res" and "unchanged_below (length h) h h'"
    and "report_at h' res = \<lparr> valid = v, issues = iss, recommendations = recs \<rparr>"
  using assms
  by (auto simp add: new_results_def alloc_def results_ok_def unchanged_below_def report_at_def
      cell_at_def list_at_def nth_append)

lemma handler_heap_fresh:
  assumes "handler_heap e h = (res, h')"
  shows "results_ok h' (length h) res" and "unchanged_below (length h) h h'"
    and "report_at h' res = validation_error_report e"
  using new_results_fresh [OF assms [unfolded handler_heap_def]] by simp_all

lemma results_ok_weaken: "results_ok h n res \<Longrightarrow> m \<le> n \<Longrightarrow> results_ok h m res"
  unfolding results_ok_def by (meson le_trans)

lemma validate_decoded_heap_refines:
  assumes "instance_ok h (length h) self"
    and "validate_decoded_heap self policy h = (x, h')"
  shows "unchanged_below (length h) h h' \<and>
    (case x of
       Inr res \<Rightarrow> results_ok h' (length h) res \<and>
                  validate_decoded (instance_at h self) policy = Inr (report_at h' res)
     | Inl e \<Rightarrow> validate_decoded (instance_at h self) policy = Inl e)"
proof -
  let ?n = "length h"
  let ?r0 = "\<lparr> valid = True, issues = [], recommendations = [] \<rparr>"
  obtain res h1 where new: "new_results True [] [] h = (res, h1)"
    by (cases "new_results True [] [] h")
  note n = new_results_fresh [OF new]
  show ?thesis
  proof (cases "py_in (ustr ''Version'') policy")
    case (Inl e)
    with new assms(2) n show ?thesis
      by (auto simp add: validate_decoded_heap_def validate_decoded_def)
  next
    case version: (Inr has_version)
    define h2 where "h2 = (if \<not> has_version then
                      results_set_valid res False
                        (results_append_recommendation res missing_version_recommendation
                          (results_append_issue res missing_version_issue h1))
                    else h1)"
    define r2 where "r2 = (if \<not> has_version then
               ?r0\<lparr> issues := issues ?r0 @ [missing_version_issue],
                    recommendations := recommendations ?r0 @ [missing_version_recommendation],
                    valid := False \<rparr>
             else ?r0)"
    have ok2: "results_ok h2 ?n res" and un2: "unchanged_below ?n h h2" and rep2: "report_at h2 res = r2"
      using n blocking_finding_refines [OF n(1,2),
          where rm = missing_version_recommendation and im = missing_version_issue]
      by (auto simp add: h2_def r2_def)
    show ?thesis
    proof (cases "py_in (ustr ''Statement'') policy")
      case (Inl e)
      with new version assms(2) un2 show ?thesis
        by (auto simp add: validate_decoded_heap_def validate_decoded_def h2_def Let_def)
    next
      case statement: (Inr has_statement)
      show ?thesis
      proof (cases has_statement)
        case False
        note a = results_append_issue_refines [OF ok2 un2, where m = missing_statement_issue]
        note b = results_set_valid_refines [OF a(1,2), where b = False]
        from new version statement False assms(2)
        have "x = Inr res"
          and "h' = results_set_valid res False (results_append_issue res missing_statement_issue h2)"
          by (auto simp add: validate_decoded_heap_def h2_def Let_def)
        with a b rep2 version statement False show ?thesis
          by (simp add: validate_decoded_def r2_def Let_def)
      next
        case True
        show ?thesis
        proof (cases "py_getitem policy (ustr ''Statement'')")
          case (Inl e)
          with new version statement True assms(2) un2 show ?thesis
            by (auto simp add: validate_decoded_heap_def validate_decoded_def h2_def Let_def)
        next
          case getitem: (Inr statements)
          obtain eo h3 where run: "analyze_statements_heap self 0 (as_list statements) res h2 = (eo, h3)"
            by (cases "analyze_statements_heap self 0 (as_list statements) res h2")
          note r = analyze_statements_heap_refines [OF assms(1) ok2 un2 run]
          from new version statement True getitem run assms(2)
          have "h' = h3" and "x = (case eo of None \<Rightarrow> Inr res | Some e \<Rightarrow> Inl e)"
            by (auto simp add: validate_decoded_heap_def h2_def Let_def split: option.splits)
          with r rep2 version statement True getitem show ?thesis
            by (cases eo) (simp_all add: validate_decoded_def r2_def Let_def)
        qed
      qed
    qed
  qed
qed

text \<open>
  A call on a store that holds the instance and the argument: what was in the store is
  unchanged, the dict returned is new, and the report in it is the report of the
  value-level \<open>validate_policy\<close>.
\<close>

lemma validate_policy_heap_refines:
  assumes "instance_ok h (length h) self"
    and "validate_policy_heap lim self arg h = (res, h')"
  shows "unchanged_below (length h) h h'"
    and "results_ok h' (length h) res"
    and "report_at h' res = validate_policy lim (instance_at h self) (value_at h arg)"
proof -
  let ?self = "instance_at h self"
  have "unchanged_below (length h) h h' \<and> results_ok h' (length h) res \<and>
    report_at h' res = validate_policy lim ?self (value_at h arg)"
  proof (cases "parse_policy_json lim (value_at h arg)")
    case (Inl e)
    with assms(2) have "handler_heap e h = (res, h')"
      by (simp add: validate_policy_heap_def)
    from handler_heap_fresh [OF this] Inl show ?thesis
      by (simp add: validate_policy_def validate_policy_try_def)
  next
    case (Inr policy)
    obtain x h1 where run: "validate_decoded_heap self policy h = (x, h1)"
      by (cases "validate_decoded_heap self policy h")
    note r = validate_decoded_heap_refines [OF assms(1) run]
    show ?thesis
    proof (cases x)
      case (Inl e)
      with Inr run assms(2) have hd: "handler_heap e h1 = (res, h')"
        by (simp add: validate_policy_heap_def)
      note f = handler_heap_fresh [OF hd]
      from r have un1: "unchanged_below (length h) h h1" by simp
      then have le: "length h \<le> length h1" by (simp add: unchanged_below_def)
      from unchanged_below_trans [OF un1 f(2) le] results_ok_weaken [OF f(1) le] f(3) r Inl Inr
      show ?thesis
        by (simp add: validate_policy_def validate_policy_try_def)
    next
      case res: (Inr res')
      with Inr run assms(2) have "res = res'" "h' = h1"
        by (simp_all add: validate_policy_heap_def)
      with r res Inr show ?thesis
        by (simp add: validate_policy_def validate_policy_try_def)
    qed
  qed
  then show "unchanged_below (length h) h h'"
    and "results_ok h' (length h) res"
    and "report_at h' res = validate_policy lim (instance_at h self) (value_at h arg)"
    by simp_all
qed

text \<open>A report object is not changed by what a later call writes.\<close>

lemma report_at_unchanged:
  assumes "results_ok h n res" and "unchanged_below (length h) h h'"
  shows "report_at h' res = report_at h res"
  using assms
  by (auto simp add: results_ok_def unchanged_below_def report_at_def cell_at_def list_at_def)

lemma value_at_unchanged:
  assumes "arg < n" and "n \<le> length h" and "unchanged_below n h h'"
  shows "value_at h' arg = value_at h arg"
  using assms by (auto simp add: unchanged_below_def value_at_def cell_at_def)

section \<open>A fenced block that does not decode\<close>

text \<open>
  Claim C1 says that when the content of the first fenced \<^verbatim>\<open>json\<close> block does not decode,
  the extractor goes on to the search for a brace-delimited document. In the code the
  failing \<^verbatim>\<open>json.loads\<close> raises inside the \<^verbatim>\<open>try\<close> block and the handler returns: the
  second search runs only when the first finds no fenced block. In the text below the
  fenced block holds \<^verbatim>\<open>{bad\<close> and is followed by a document that the extractor finds when
  it stands alone; on the whole text \<^verbatim>\<open>extract_policy_from_text\<close> returns \<^verbatim>\<open>None\<close> and
  \<^verbatim>\<open>extract_and_save_policy\<close> reports the failure.
\<close>

theorem C1_malformed_fence_counterexample:
  \<open>extract_policy_from_text default_limits (ustr ''{"Version":"2012-10-17","Statement":[]}'') =
      Some (ustr ''{"Version":"2012-10-17","Statement":[]}'')
   \<and> (\<exists>m. re_search fenced_pattern
          (ustr ''```json'' @ [0x0A] @ ustr ''{bad'' @ [0x0A] @ ustr ''```'' @ [0x0A] @
           ustr ''{"Version":"2012-10-17","Statement":[]}'') = Some m
        \<and> strip (group1
          (ustr ''```json'' @ [0x0A] @ ustr ''{bad'' @ [0x0A] @ ustr ''```'' @ [0x0A] @
           ustr ''{"Version":"2012-10-17","Statement":[]}'') m) = ustr ''{bad'')
   \<and> json_loads default_limits (ustr ''{bad'') = Inl JSONDecodeError
   \<and> extract_policy_from_text default_limits
        (ustr ''```json'' @ [0x0A] @ ustr ''{bad'' @ [0x0A] @ ustr ''```'' @ [0x0A] @
         ustr ''{"Version":"2012-10-17","Statement":[]}'') = None
   \<and> extract_and_save_policy default_limits (\<lambda>json_str. Some (ustr ''saved_policies/policy.json''))
        (ustr ''```json'' @ [0x0A] @ ustr ''{bad'' @ [0x0A] @ ustr ''```'' @ [0x0A] @
         ustr ''{"Version":"2012-10-17","Statement":[]}'') =
      (False, Some (ustr ''Invalid JSON format in the extracted policy''))\<close>
proof (intro conjI)
  show \<open>extract_policy_from_text default_limits (ustr ''{"Version":"2012-10-17","Statement":[]}'') =
      Some (ustr ''{"Version":"2012-10-17","Statement":[]}'')\<close>
    by code_simp
  have \<open>re_search fenced_pattern
          (ustr ''```json'' @ [0x0A] @ ustr ''{bad'' @ [0x0A] @ ustr ''```'' @ [0x0A] @
           ustr ''{"Version":"2012-10-17","Statement":[]}'') = Some (0, 16, 8, 12)\<close>
    by code_simp
  moreover have \<open>strip (group1
          (ustr ''```json'' @ [0x0A] @ ustr ''{bad'' @ [0x0A] @ ustr ''```'' @ [0x0A] @
           ustr ''{"Version":"2012-10-17","Statement":[]}'') (0, 16, 8, 12)) = ustr ''{bad''\<close>
    by code_simp
  ultimately show \<open>\<exists>m. re_search fenced_pattern
          (ustr ''```json'' @ [0x0A] @ ustr ''{bad'' @ [0x0A] @ ustr ''```'' @ [0x0A] @
           ustr ''{"Version":"2012-10-17","Statement":[]}'') = Some m
        \<and> strip (group1
          (ustr ''```json'' @ [0x0A] @ ustr ''{bad'' @ [0x0A] @ ustr ''```'' @ [0x0A] @
           ustr ''{"Version":"2012-10-17","Statement":[]}'') m) = ustr ''{bad''\<close>
    by blast
  show "json_loads default_limits (ustr ''{bad'') = Inl JSONDecodeError"
    by code_simp
  show \<open>extract_policy_from_text default_limits
        (ustr ''```json'' @ [0x0A] @ ustr ''{bad'' @ [0x0A] @ ustr ''```'' @ [0x0A] @
         ustr ''{"Version":"2012-10-17","Statement":[]}'') = None\<close>
    by code_simp
  show \<open>extract_and_save_policy default_limits (\<lambda>json_str. Some (ustr ''saved_policies/policy.json''))
        (ustr ''```json'' @ [0x0A] @ ustr ''{bad'' @ [0x0A] @ ustr ''```'' @ [0x0A] @
         ustr ''{"Version":"2012-10-17","Statement":[]}'') =
      (False, Some (ustr ''Invalid JSON format in the extracted policy''))\<close>
    by code_simp
qed

text \<open>
  Claim C1 as amended. For every input text in which the search for a fenced \<^verbatim>\<open>json\<close>
  block succeeds and \<^verbatim>\<open>json.loads\<close> raises on the content of the block, stripped, the
  extractor stops there, whatever follows the block and whatever the limits of the
  interpreter: \<^verbatim>\<open>extract_policy_from_text\<close> returns \<^verbatim>\<open>None\<close>, and \<^verbatim>\<open>extract_and_save_policy\<close>
  returns \<^verbatim>\<open>False\<close> with a message, which is
  \<^verbatim>\<open>Invalid JSON format in the extracted policy\<close> when the exception is \<^verbatim>\<open>JSONDecodeError\<close>
  and \<^verbatim>\<open>Error extracting and saving policy: \<close> followed by \<^verbatim>\<open>str(e)\<close> for any other
  exception (an integer literal over the limit of digits, containers nested deeper than
  the stack permits).
\<close>

theorem C1_malformed_fence_stops:
  assumes "re_search fenced_pattern text = Some m"
    and "json_loads lim (strip (group1 text m)) = Inl e"
  shows "extract_policy_from_text lim text = None
    \<and> extract_and_save_policy lim save_policy text =
        (False, Some (case e of
                        JSONDecodeError \<Rightarrow> ustr ''Invalid JSON format in the extracted policy''
                      | ValueError msg \<Rightarrow> ustr ''Error extracting and saving policy: '' @ msg
                      | RecursionError msg \<Rightarrow> ustr ''Error extracting and saving policy: '' @ msg
                      | TypeError msg \<Rightarrow> ustr ''Error extracting and saving policy: '' @ msg
                      | KeyError msg \<Rightarrow> ustr ''Error extracting and saving policy: '' @ msg))"
proof -
  have "extract_policy_try lim text = Inl e"
    using assms by (simp add: extract_policy_try_def Let_def)
  moreover have "extract_and_save_try lim save_policy text = Inl e"
    using assms by (simp add: extract_and_save_try_def Let_def)
  ultimately show ?thesis
    by (cases e) (simp_all add: extract_policy_from_text_def extract_and_save_policy_def)
qed

theorem C1_malformed_fence_stops_witness:
  \<open>re_search fenced_pattern (ustr ''```json {"Statement": ``` {"Version": "1", "Statement": []}'') =
      Some (0, 25, 8, 21)
   \<and> json_loads default_limits
        (strip (group1 (ustr ''```json {"Statement": ``` {"Version": "1", "Statement": []}'') (0, 25, 8, 21))) =
      Inl JSONDecodeError
   \<and> extract_policy_from_text default_limits
        (ustr ''```json {"Statement": ``` {"Version": "1", "Statement": []}'') = None
   \<and> extract_and_save_policy default_limits (\<lambda>json_str. None)
        (ustr ''```json {"Statement": ``` {"Version": "1", "Statement": []}'') =
      (False, Some (ustr ''Invalid JSON format in the extracted policy''))
   \<and> re_search fenced_pattern (ustr ''```json [[[1]]] ``` {"Version": "1", "Statement": []}'') =
      Some (0, 19, 8, 15)
   \<and> json_loads \<lparr> int_max_str_digits = 4300, recursion_budget = 2 \<rparr>
        (strip (group1 (ustr ''```json [[[1]]] ``` {"Version": "1", "Statement": []}'') (0, 19, 8, 15))) =
      Inl (RecursionError
        (ustr ''maximum recursion depth exceeded while decoding a JSON array from a unicode string''))
   \<and> extract_policy_from_text \<lparr> int_max_str_digits = 4300, recursion_budget = 2 \<rparr>
        (ustr ''```json [[[1]]] ``` {"Version": "1", "Statement": []}'') = None
   \<and> extract_and_save_policy \<lparr> int_max_str_digits = 4300, recursion_budget = 2 \<rparr> (\<lambda>json_str. None)
        (ustr ''```json [[[1]]] ``` {"Version": "1", "Statement": []}'') =
      (False, Some (ustr ''Error extracting and saving policy: maximum recursion depth exceeded while decoding a JSON array from a unicode string''))\<close>
proof -
  have h1: \<open>re_search fenced_pattern (ustr ''```json {"Statement": ``` {"Version": "1", "Statement": []}'') =
      Some (0, 25, 8, 21)\<close>
    by code_simp
  have h2: \<open>json_loads default_limits
        (strip (group1 (ustr ''```json {"Statement": ``` {"Version": "1", "Statement": []}'') (0, 25, 8, 21))) =
      Inl JSONDecodeError\<close>
    by code_simp
  have k1: \<open>re_search fenced_pattern (ustr ''```json [[[1]]] ``` {"Version": "1", "Statement": []}'') =
      Some (0, 19, 8, 15)\<close>
    by code_simp
  have k2: \<open>json_loads \<lparr> int_max_str_digits = 4300, recursion_budget = 2 \<rparr>
        (strip (group1 (ustr ''```json [[[1]]] ``` {"Version": "1", "Statement": []}'') (0, 19, 8, 15))) =
      Inl (RecursionError
        (ustr ''maximum recursion depth exceeded while decoding a JSON array from a unicode string''))\<close>
    by code_simp
  have msg: "ustr ''Error extracting and saving policy: '' @
      ustr ''maximum recursion depth exceeded while decoding a JSON array from a unicode string'' =
      ustr ''Error extracting and saving policy: maximum recursion depth exceeded while decoding a JSON array from a unicode string''"
    by (simp add: ustr_def)
  from C1_malformed_fence_stops [OF h1 h2, of "\<lambda>json_str. None"]
    C1_malformed_fence_stops [OF k1 k2, of "\<lambda>json_str. None"] h1 h2 k1 k2 msg
  show ?thesis by simp
qed

section \<open>A policy with an empty list of statements\<close>

text \<open>
  Claim C2 says that a decoded policy with a \<^verbatim>\<open>Version\<close> key and \<^verbatim>\<open>"Statement": []\<close> is
  reported as invalid with an issue. The code has no check on the number of
  statements: the loop over an empty list adds nothing. The report for
  \<^verbatim>\<open>{"Version": "2012-10-17", "Statement": []}\<close> is valid, with no issue and no
  recommendation.
\<close>

theorem C2_empty_statements_counterexample:
  \<open>json_loads default_limits (ustr ''{"Version": "2012-10-17", "Statement": []}'') =
      Inr (PDict [(ustr ''Version'', PStr (ustr ''2012-10-17'')), (ustr ''Statement'', PList [])])
   \<and> validate_policy default_limits PolicyValidator_init (PStr (ustr ''{"Version": "2012-10-17", "Statement": []}'')) =
      \<lparr> valid = True, issues = [], recommendations = [] \<rparr>\<close>
  by code_simp

text \<open>
  Claim C2 as amended. For every argument that decodes to a dict with a \<^verbatim>\<open>Version\<close> key
  and the empty list under \<^verbatim>\<open>Statement\<close>, the validator returns \<^verbatim>\<open>valid = True\<close> with no
  issue and no recommendation.
\<close>

theorem C2_empty_statements_valid:
  assumes "parse_policy_json lim policy_json = Inr (PDict kvs)"
    and "map_of kvs (ustr ''Version'') = Some version"
    and "map_of kvs (ustr ''Statement'') = Some (PList [])"
  shows "validate_policy lim self policy_json = \<lparr> valid = True, issues = [], recommendations = [] \<rparr>"
proof -
  have "validate_policy_try lim self policy_json = validate_decoded self (PDict kvs)"
    using assms(1) by (rule validate_policy_via_decoded)
  also have "\<dots> = Inr \<lparr> valid = True, issues = [], recommendations = [] \<rparr>"
    using assms(2,3) by (simp add: validate_decoded_dict)
  finally show ?thesis by (rule validate_policy_Inr)
qed

theorem C2_empty_statements_valid_witness:
  \<open>parse_policy_json default_limits (PStr (ustr ''{"Version": "2012-10-17", "Statement": []}'')) =
      Inr (PDict [(ustr ''Version'', PStr (ustr ''2012-10-17'')), (ustr ''Statement'', PList [])])
   \<and> map_of [(ustr ''Version'', PStr (ustr ''2012-10-17'')), (ustr ''Statement'', PList [])] (ustr ''Version'') =
      Some (PStr (ustr ''2012-10-17''))
   \<and> map_of [(ustr ''Version'', PStr (ustr ''2012-10-17'')), (ustr ''Statement'', PList [])] (ustr ''Statement'') =
      Some (PList [])
   \<and> validate_policy default_limits PolicyValidator_init (PStr (ustr ''{"Version": "2012-10-17", "Statement": []}'')) =
      \<lparr> valid = True, issues = [], recommendations = [] \<rparr>\<close>
proof -
  have h1: \<open>parse_policy_json default_limits (PStr (ustr ''{"Version": "2012-10-17", "Statement": []}'')) =
      Inr (PDict [(ustr ''Version'', PStr (ustr ''2012-10-17'')), (ustr ''Statement'', PList [])])\<close>
    by code_simp
  have h2: "map_of [(ustr ''Version'', PStr (ustr ''2012-10-17'')), (ustr ''Statement'', PList [])] (ustr ''Version'') =
      Some (PStr (ustr ''2012-10-17''))"
    by code_simp
  have h3: "map_of [(ustr ''Version'', PStr (ustr ''2012-10-17'')), (ustr ''Statement'', PList [])] (ustr ''Statement'') =
      Some (PList [])"
    by code_simp
  from C2_empty_statements_valid [OF h1 h2 h3, of PolicyValidator_init] h1 h2 h3
  show ?thesis by simp
qed

section \<open>A policy without the \<^verbatim>\<open>Statement\<close> key\<close>

text \<open>
  Claim C3 says that a decoded policy without the \<^verbatim>\<open>Statement\<close> key gets exactly one issue.
  The check of \<^verbatim>\<open>Version\<close> runs before and does not return, so a policy that lacks both
  keys gets two issues, as the report for \<^verbatim>\<open>{}\<close> shows.
\<close>

theorem C3_missing_statement_counterexample:
  \<open>json_loads default_limits (ustr ''{}'') = Inr (PDict [])
   \<and> validate_policy default_limits PolicyValidator_init (PStr (ustr ''{}'')) =
      \<lparr> valid = False, issues = [missing_version_issue, missing_statement_issue],
        recommendations = [missing_version_recommendation] \<rparr>
   \<and> length (issues (validate_policy default_limits PolicyValidator_init (PStr (ustr ''{}'')))) = 2\<close>
  by code_simp

text \<open>
  Claim C3 as amended. For every argument that decodes to a dict without the
  \<^verbatim>\<open>Statement\<close> key, the report is invalid, no statement is analysed, and the last issue
  is the missing \<^verbatim>\<open>Statement\<close>: it is the only issue, with no recommendation, when
  \<^verbatim>\<open>Version\<close> is present, and it follows the issue and the recommendation of the missing
  \<^verbatim>\<open>Version\<close> otherwise.
\<close>

theorem C3_missing_statement:
  assumes "parse_policy_json lim policy_json = Inr (PDict kvs)"
    and "map_of kvs (ustr ''Statement'') = None"
  shows "validate_policy lim self policy_json =
    (if map_of kvs (ustr ''Version'') = None
     then \<lparr> valid = False, issues = [missing_version_issue, missing_statement_issue],
            recommendations = [missing_version_recommendation] \<rparr>
     else \<lparr> valid = False, issues = [missing_statement_issue], recommendations = [] \<rparr>)"
proof -
  have "validate_policy_try lim self policy_json = validate_decoded self (PDict kvs)"
    using assms(1) by (rule validate_policy_via_decoded)
  also have "\<dots> = Inr (if map_of kvs (ustr ''Version'') = None
     then \<lparr> valid = False, issues = [missing_version_issue, missing_statement_issue],
            recommendations = [missing_version_recommendation] \<rparr>
     else \<lparr> valid = False, issues = [missing_statement_issue], recommendations = [] \<rparr>)"
    using assms(2) by (simp add: validate_decoded_dict)
  finally show ?thesis by (rule validate_policy_Inr)
qed

theorem C3_missing_statement_witness:
  \<open>parse_policy_json default_limits (PStr (ustr ''{"Version": "2012-10-17"}'')) =
      Inr (PDict [(ustr ''Version'', PStr (ustr ''2012-10-17''))])
   \<and> map_of [(ustr ''Version'', PStr (ustr ''2012-10-17''))] (ustr ''Statement'') = None
   \<and> validate_policy default_limits PolicyValidator_init (PStr (ustr ''{"Version": "2012-10-17"}'')) =
      \<lparr> valid = False, issues = [missing_statement_issue], recommendations = [] \<rparr>\<close>
proof -
  have h1: \<open>parse_policy_json default_limits (PStr (ustr ''{"Version": "2012-10-17"}'')) =
      Inr (PDict [(ustr ''Version'', PStr (ustr ''2012-10-17''))])\<close>
    by code_simp
  have h2: "map_of [(ustr ''Version'', PStr (ustr ''2012-10-17''))] (ustr ''Statement'') = None"
    by code_simp
  have h3: "map_of [(ustr ''Version'', PStr (ustr ''2012-10-17''))] (ustr ''Version'') \<noteq> None"
    by code_simp
  from C3_missing_statement [OF h1 h2, of PolicyValidator_init] h1 h2 h3
  show ?thesis by simp
qed

section \<open>The scenario of the permissive statement\<close>

text \<open>
  Claim C4. For the input policy
  \<^verbatim>\<open>{"Statement":[{"Effect":"Allow","Action":"iam:*","Resource":"*"}]}\<close>, passed as text or
  as the decoded dict, the validator returns \<^verbatim>\<open>valid = False\<close> with exactly three
  distinct issues, in this order: \<^verbatim>\<open>Missing 'Version' field in policy\<close>,
  \<^verbatim>\<open>Statement 1 contains overly permissive action: iam:*\<close> and
  \<^verbatim>\<open>Statement 1 applies to all resources ('*')\<close>; and with four recommendations: one for
  each issue, then \<^verbatim>\<open>Consider adding conditions to Statement 1 for additional security\<close>.
  The texts are written out; \<open>0x27\<close> is the apostrophe.
\<close>

theorem C4_permissive_scenario:
  \<open>validate_policy default_limits PolicyValidator_init
      (PStr (ustr ''{"Statement":[{"Effect":"Allow","Action":"iam:*","Resource":"*"}]}'')) =
    \<lparr> valid = False,
      issues =
        [ustr ''Missing '' @ [0x27] @ ustr ''Version'' @ [0x27] @ ustr '' field in policy'',
         ustr ''Statement 1 contains overly permissive action: iam:*'',
         ustr ''Statement 1 applies to all resources ('' @ [0x27] @ ustr ''*'' @ [0x27] @ ustr '')''],
      recommendations =
        [ustr ''Add '' @ [0x27] @ ustr ''Version'' @ [0x27] @ ustr '': '' @ [0x27] @ ustr ''2012-10-17'' @
           [0x27] @ ustr '' to the policy'',
         ustr ''Replace '' @ [0x27] @ ustr ''iam:*'' @ [0x27] @
           ustr '' with specific actions needed for the use case'',
         ustr ''Specify exact resource ARNs instead of using '' @ [0x27] @ ustr ''*'' @ [0x27],
         ustr ''Consider adding conditions to Statement 1 for additional security''] \<rparr>
   \<and> validate_policy default_limits PolicyValidator_init
      (PDict [(ustr ''Statement'',
         PList [PDict [(ustr ''Effect'', PStr (ustr ''Allow'')),
                       (ustr ''Action'', PStr (ustr ''iam:*'')),
                       (ustr ''Resource'', PStr (ustr ''*''))]])]) =
     validate_policy default_limits PolicyValidator_init
      (PStr (ustr ''{"Statement":[{"Effect":"Allow","Action":"iam:*","Resource":"*"}]}''))
   \<and> distinct (issues (validate_policy default_limits PolicyValidator_init
      (PStr (ustr ''{"Statement":[{"Effect":"Allow","Action":"iam:*","Resource":"*"}]}''))))
   \<and> length (issues (validate_policy default_limits PolicyValidator_init
      (PStr (ustr ''{"Statement":[{"Effect":"Allow","Action":"iam:*","Resource":"*"}]}'')))) = 3
   \<and> length (recommendations (validate_policy default_limits PolicyValidator_init
      (PStr (ustr ''{"Statement":[{"Effect":"Allow","Action":"iam:*","Resource":"*"}]}'')))) = 4\<close>
  by code_simp

section \<open>Exact matching of overly permissive actions\<close>

text \<open>
  Claim C5 says that, for every policy, a statement whose action list contains the
  literal \<^verbatim>\<open>s3:*\<close> produces an overly-permissive-action issue. When another statement of
  the policy makes a check raise, the handler replaces the whole report and the issue
  is not in it. In the policy below the first statement has the action \<^verbatim>\<open>s3:*\<close> and the
  second statement is the number 5, on which \<^verbatim>\<open>"Action" in statement\<close> raises \<^verbatim>\<open>TypeError\<close>:
  the report has the one issue of the handler.
\<close>

theorem C5_exact_action_match_counterexample:
  \<open>json_loads default_limits
      (ustr ''{"Version":"2012-10-17","Statement":[{"Action":"s3:*","Resource":"arn:aws:s3:::b"},5]}'') =
     Inr (PDict [(ustr ''Version'', PStr (ustr ''2012-10-17'')),
                 (ustr ''Statement'',
                    PList [PDict [(ustr ''Action'', PStr (ustr ''s3:*'')),
                                  (ustr ''Resource'', PStr (ustr ''arn:aws:s3:::b''))],
                           PInt 5])])
   \<and> validate_policy default_limits PolicyValidator_init
       (PStr (ustr ''{"Version":"2012-10-17","Statement":[{"Action":"s3:*","Resource":"arn:aws:s3:::b"},5]}'')) =
     \<lparr> valid = False,
       issues = [ustr ''Validation error: argument of type '' @ [0x27] @ ustr ''int'' @ [0x27] @
                   ustr '' is not iterable''],
       recommendations = [ustr ''Review the policy structure''] \<rparr>
   \<and> ustr ''Statement 1 contains overly permissive action: s3:*'' \<notin>
       set (issues (validate_policy default_limits PolicyValidator_init
         (PStr (ustr ''{"Version":"2012-10-17","Statement":[{"Action":"s3:*","Resource":"arn:aws:s3:::b"},5]}''))))\<close>
  by code_simp

text \<open>
  Claim C5 as amended. Take a decoded policy on which the validation raises no exception
  (as it does not when every statement is an object), and a statement of it, the one
  with index \<open>k\<close> (number \<open>k + 1\<close> in the messages), that has an \<^verbatim>\<open>Action\<close>. The report has the
  issue \<^verbatim>\<open>Statement {k+1} contains overly permissive action: {a}\<close> exactly when \<open>a\<close> is a
  string of the statement's action list that is equal to an entry of the fixed list. So
  an action list that contains the literal \<^verbatim>\<open>s3:*\<close> gives the issue and \<^verbatim>\<open>valid = False\<close>,
  and the action list \<^verbatim>\<open>["s3:GetObject"]\<close> (or the single string) gives no
  overly-permissive-action issue for that statement.
\<close>

theorem C5_exact_action_match:
  assumes "parse_policy_json lim policy_json = Inr (PDict kvs)"
    and "map_of kvs (ustr ''Statement'') = Some statements"
    and "validate_policy_try lim PolicyValidator_init policy_json = Inr report"
    and "k < length (as_list statements)"
    and "as_list statements ! k = PDict stmt"
    and "map_of stmt (ustr ''Action'') = Some action"
  shows "validate_policy lim PolicyValidator_init policy_json = report
    \<and> overly_permissive_actions PolicyValidator_init =
        [ustr ''*'', ustr ''s3:*'', ustr ''ec2:*'', ustr ''iam:*'', ustr ''dynamodb:*'', ustr ''lambda:*'',
         ustr ''cloudformation:*'']
    \<and> (\<forall>a. ustr ''Statement '' @ str_nat (k + 1) @ ustr '' contains overly permissive action: '' @ a
              \<in> set (issues report) \<longleftrightarrow>
            PStr a \<in> set (as_list action) \<and> a \<in> set (overly_permissive_actions PolicyValidator_init))
    \<and> (PStr (ustr ''s3:*'') \<in> set (as_list action) \<longrightarrow>
          ustr ''Statement '' @ str_nat (k + 1) @ ustr '' contains overly permissive action: s3:*''
            \<in> set (issues report) \<and>
          \<not> valid report)
    \<and> (as_list action = [PStr (ustr ''s3:GetObject'')] \<longrightarrow>
          (\<forall>a. ustr ''Statement '' @ str_nat (k + 1) @ ustr '' contains overly permissive action: '' @ a
                 \<notin> set (issues report)))"
proof -
  let ?self = PolicyValidator_init
  let ?r0 = "if map_of kvs (ustr ''Version'') = None
             then \<lparr> valid = False, issues = [missing_version_issue],
                    recommendations = [missing_version_recommendation] \<rparr>
             else \<lparr> valid = True, issues = [], recommendations = [] \<rparr>"
  have "validate_policy_try lim ?self policy_json = validate_decoded ?self (PDict kvs)"
    using assms(1) by (rule validate_policy_via_decoded)
  with assms(2,3) have run: "analyze_statements ?self 0 (as_list statements) ?r0 = Inr report"
    by (simp add: validate_decoded_dict)
  have msg: "ustr ''Statement '' @ str_nat (k + 1) @ ustr '' contains overly permissive action: '' @ a
      = permissive_issue k a" for a
    by (simp add: permissive_issue_def)
  have msg_star: "ustr ''Statement '' @ str_nat (k + 1) @ ustr '' contains overly permissive action: s3:*''
      = permissive_issue k (ustr ''s3:*'')"
    by (simp add: permissive_issue_def ustr_def)
  have found: "permissive_issue k a \<in> set (issues report) \<and> \<not> valid report"
    if "PStr a \<in> set (as_list action)" and "a \<in> set (overly_permissive_actions ?self)" for a
    using analyze_statements_permissive [OF run assms(4,5,6) that] by simp
  have origin: "PStr a \<in> set (as_list action) \<and> a \<in> set (overly_permissive_actions ?self)"
    if "permissive_issue k a \<in> set (issues report)" for a
  proof -
    have "permissive_issue k a \<notin> set (issues ?r0)"
      by (simp add: permissive_issue_neq_missing_version)
    with analyze_statements_permissive_origin [OF run that]
    obtain k' stmt' action' where "k' < length (as_list statements)" "k = 0 + k'"
      "as_list statements ! k' = PDict stmt'" "map_of stmt' (ustr ''Action'') = Some action'"
      "PStr a \<in> set (as_list action')" "a \<in> set (overly_permissive_actions ?self)"
      by blast
    with assms(5,6) show ?thesis by simp
  qed
  have star: "ustr ''s3:*'' \<in> set (overly_permissive_actions ?self)"
    by (simp add: PolicyValidator_init_def)
  have get: "ustr ''s3:GetObject'' \<notin> set (overly_permissive_actions ?self)"
    by (simp add: PolicyValidator_init_def ustr_def)
  show ?thesis
    unfolding msg msg_star
  proof (intro conjI allI impI)
    show "validate_policy lim ?self policy_json = report"
      using assms(3) by (rule validate_policy_Inr)
    show "overly_permissive_actions ?self =
        [ustr ''*'', ustr ''s3:*'', ustr ''ec2:*'', ustr ''iam:*'', ustr ''dynamodb:*'', ustr ''lambda:*'',
         ustr ''cloudformation:*'']"
      by (simp add: PolicyValidator_init_def)
  next
    fix a
    show "permissive_issue k a \<in> set (issues report) \<longleftrightarrow>
        PStr a \<in> set (as_list action) \<and> a \<in> set (overly_permissive_actions ?self)"
      using found [of a] origin [of a] by blast
  next
    assume "PStr (ustr ''s3:*'') \<in> set (as_list action)"
    with star show "permissive_issue k (ustr ''s3:*'') \<in> set (issues report)"
      using found by blast
  next
    assume "PStr (ustr ''s3:*'') \<in> set (as_list action)"
    with star show "\<not> valid report"
      using found by blast
  next
    fix a
    assume only: "as_list action = [PStr (ustr ''s3:GetObject'')]"
    show "permissive_issue k a \<notin> set (issues report)"
    proof
      assume "permissive_issue k a \<in> set (issues report)"
      from origin [OF this] only
      have "a = ustr ''s3:GetObject'' \<and> a \<in> set (overly_permissive_actions ?self)"
        by auto
      with get show False by blast
    qed
  qed
qed

theorem C5_exact_action_match_witness:
  \<open>ustr ''Statement 2 contains overly permissive action: s3:*'' \<in> set (issues (validate_policy default_limits PolicyValidator_init
      (PStr (ustr ''{"Version":"2012-10-17","Statement":[{"Action":["s3:GetObject"],"Resource":"arn:aws:s3:::b/*"},{"Action":["s3:PutObject","s3:*"],"Resource":"arn:aws:s3:::b/*"}]}''))))
   \<and> \<not> valid (validate_policy default_limits PolicyValidator_init
      (PStr (ustr ''{"Version":"2012-10-17","Statement":[{"Action":["s3:GetObject"],"Resource":"arn:aws:s3:::b/*"},{"Action":["s3:PutObject","s3:*"],"Resource":"arn:aws:s3:::b/*"}]}'')))
   \<and> (\<forall>a. ustr ''Statement 1 contains overly permissive action: '' @ a \<notin> set (issues (validate_policy default_limits PolicyValidator_init
      (PStr (ustr ''{"Version":"2012-10-17","Statement":[{"Action":["s3:GetObject"],"Resource":"arn:aws:s3:::b/*"},{"Action":["s3:PutObject","s3:*"],"Resource":"arn:aws:s3:::b/*"}]}'')))))\<close>
proof -
  let ?text = \<open>ustr ''{"Version":"2012-10-17","Statement":[{"Action":["s3:GetObject"],"Resource":"arn:aws:s3:::b/*"},{"Action":["s3:PutObject","s3:*"],"Resource":"arn:aws:s3:::b/*"}]}''\<close>
  let ?s0 = "[(ustr ''Action'', PList [PStr (ustr ''s3:GetObject'')]),
              (ustr ''Resource'', PStr (ustr ''arn:aws:s3:::b/*''))]"
  let ?s1 = "[(ustr ''Action'', PList [PStr (ustr ''s3:PutObject''), PStr (ustr ''s3:*'')]),
              (ustr ''Resource'', PStr (ustr ''arn:aws:s3:::b/*''))]"
  let ?kvs = "[(ustr ''Version'', PStr (ustr ''2012-10-17'')),
               (ustr ''Statement'', PList [PDict ?s0, PDict ?s1])]"
  let ?report = "validate_policy default_limits PolicyValidator_init (PStr ?text)"
  have h1: "parse_policy_json default_limits (PStr ?text) = Inr (PDict ?kvs)"
    by code_simp
  have h2: "map_of ?kvs (ustr ''Statement'') = Some (PList [PDict ?s0, PDict ?s1])"
    by code_simp
  have h3: "validate_policy_try default_limits PolicyValidator_init (PStr ?text) = Inr ?report"
    by code_simp
  have k0: "0 < length (as_list (PList [PDict ?s0, PDict ?s1]))"
    and k1: "1 < length (as_list (PList [PDict ?s0, PDict ?s1]))"
    by simp_all
  have n0: "as_list (PList [PDict ?s0, PDict ?s1]) ! 0 = PDict ?s0"
    and n1: "as_list (PList [PDict ?s0, PDict ?s1]) ! 1 = PDict ?s1"
    by simp_all
  have a0: "map_of ?s0 (ustr ''Action'') = Some (PList [PStr (ustr ''s3:GetObject'')])"
    and a1: "map_of ?s1 (ustr ''Action'') = Some (PList [PStr (ustr ''s3:PutObject''), PStr (ustr ''s3:*'')])"
    by simp_all
  have in1: "PStr (ustr ''s3:*'') \<in> set (as_list (PList [PStr (ustr ''s3:PutObject''), PStr (ustr ''s3:*'')]))"
    by simp
  have only0: "as_list (PList [PStr (ustr ''s3:GetObject'')]) = [PStr (ustr ''s3:GetObject'')]"
    by simp
  have t1: "ustr ''Statement '' @ str_nat (0 + 1) @ ustr '' contains overly permissive action: '' @ a
      = ustr ''Statement 1 contains overly permissive action: '' @ a" for a
    by (simp add: ustr_def str_nat.simps)
  have t2: "ustr ''Statement '' @ str_nat (1 + 1) @ ustr '' contains overly permissive action: s3:*''
      = ustr ''Statement 2 contains overly permissive action: s3:*''"
    by (simp add: ustr_def str_nat.simps)
  from C5_exact_action_match [OF h1 h2 h3 k1 n1 a1] in1
  have "ustr ''Statement '' @ str_nat (1 + 1) @ ustr '' contains overly permissive action: s3:*''
      \<in> set (issues ?report) \<and> \<not> valid ?report"
    by blast
  moreover from C5_exact_action_match [OF h1 h2 h3 k0 n0 a0] only0
  have "\<forall>a. ustr ''Statement '' @ str_nat (0 + 1) @ ustr '' contains overly permissive action: '' @ a
      \<notin> set (issues ?report)"
    by blast
  ultimately show ?thesis
    unfolding t1 t2 by blast
qed

section \<open>Sensitive actions are reported and do not invalidate\<close>

text \<open>
  Claim C6 says that, for every policy, a statement with a sensitive action gets a
  sensitive-action issue and a recommendation in the report. When another statement of
  the policy makes a check raise, the handler replaces the whole report, and neither is
  in it. In the policy below the first statement has the action \<^verbatim>\<open>kms:Decrypt\<close> and the
  second statement is the number 5: the report has the one issue and the one
  recommendation of the handler.
\<close>

theorem C6_sensitive_action_counterexample:
  \<open>json_loads default_limits
      (ustr ''{"Version":"2012-10-17","Statement":[{"Action":"kms:Decrypt","Resource":"arn:aws:kms:::key/k"},5]}'') =
     Inr (PDict [(ustr ''Version'', PStr (ustr ''2012-10-17'')),
                 (ustr ''Statement'',
                    PList [PDict [(ustr ''Action'', PStr (ustr ''kms:Decrypt'')),
                                  (ustr ''Resource'', PStr (ustr ''arn:aws:kms:::key/k''))],
                           PInt 5])])
   \<and> ustr ''kms:Decrypt'' \<in> set (sensitive_actions PolicyValidator_init)
   \<and> validate_policy default_limits PolicyValidator_init
       (PStr (ustr ''{"Version":"2012-10-17","Statement":[{"Action":"kms:Decrypt","Resource":"arn:aws:kms:::key/k"},5]}'')) =
     \<lparr> valid = False,
       issues = [ustr ''Validation error: argument of type '' @ [0x27] @ ustr ''int'' @ [0x27] @
                   ustr '' is not iterable''],
       recommendations = [ustr ''Review the policy structure''] \<rparr>
   \<and> ustr ''Statement 1 contains sensitive action: kms:Decrypt'' \<notin>
       set (issues (validate_policy default_limits PolicyValidator_init
         (PStr (ustr ''{"Version":"2012-10-17","Statement":[{"Action":"kms:Decrypt","Resource":"arn:aws:kms:::key/k"},5]}''))))
   \<and> ustr ''Review if '' @ [0x27] @ ustr ''kms:Decrypt'' @ [0x27] @
         ustr '' is absolutely necessary and consider adding conditions'' \<notin>
       set (recommendations (validate_policy default_limits PolicyValidator_init
         (PStr (ustr ''{"Version":"2012-10-17","Statement":[{"Action":"kms:Decrypt","Resource":"arn:aws:kms:::key/k"},5]}''))))\<close>
  by code_simp

text \<open>
  Claim C6 as amended. Take a decoded policy on which the validation raises no exception
  (as it does not when every statement is an object), and a statement of it, with index
  \<open>k\<close>, whose action list contains a string \<open>a\<close> of the fixed list of sensitive actions.
  The report has the issue \<^verbatim>\<open>Statement {k+1} contains sensitive action: {a}\<close>, where the
  number is \<open>k + 1\<close> in decimal digits, and the recommendation
  \<^verbatim>\<open>Review if '{a}' is absolutely necessary and consider adding conditions\<close>. The loop
  that adds them leaves \<^verbatim>\<open>valid\<close> as it is; and when the policy has a \<^verbatim>\<open>Version\<close> and every
  statement is an object with a \<^verbatim>\<open>Resource\<close> without the wildcard and with no overly
  permissive action, so that sensitive actions and missing conditions are the only
  findings, the report is valid.
\<close>

theorem C6_sensitive_action_not_blocking:
  assumes "parse_policy_json lim policy_json = Inr (PDict kvs)"
    and "map_of kvs (ustr ''Statement'') = Some statements"
    and "validate_policy_try lim PolicyValidator_init policy_json = Inr report"
    and "k < length (as_list statements)"
    and "as_list statements ! k = PDict stmt"
    and "map_of stmt (ustr ''Action'') = Some action"
    and "PStr a \<in> set (as_list action)"
    and "a \<in> set (sensitive_actions PolicyValidator_init)"
  shows "validate_policy lim PolicyValidator_init policy_json = report
    \<and> sensitive_actions PolicyValidator_init =
        [ustr ''iam:CreateUser'', ustr ''iam:CreateRole'', ustr ''iam:PutRolePolicy'',
         ustr ''iam:AttachRolePolicy'', ustr ''iam:AttachUserPolicy'', ustr ''s3:PutBucketPolicy'',
         ustr ''ec2:RunInstances'', ustr ''lambda:CreateFunction'', ustr ''kms:Decrypt'',
         ustr ''secretsmanager:GetSecretValue'']
    \<and> ustr ''Statement '' @ str_nat (k + 1) @ ustr '' contains sensitive action: '' @ a
          \<in> set (issues report)
    \<and> (\<forall>c \<in> set (str_nat (k + 1)). 0x30 \<le> c \<and> c \<le> 0x39)
    \<and> foldl (\<lambda>n c. 10 * n + (c - 0x30)) 0 (str_nat (k + 1)) = k + 1
    \<and> ustr ''Review if '' @ [0x27] @ a @ [0x27] @ ustr '' is absolutely necessary and consider adding conditions''
          \<in> set (recommendations report)
    \<and> (\<forall>i actions r. valid (check_sensitive PolicyValidator_init i actions r) = valid r)
    \<and> (map_of kvs (ustr ''Version'') \<noteq> None \<and>
        (\<forall>s \<in> set (as_list statements). \<exists>d resource. s = PDict d \<and>
           map_of d (ustr ''Resource'') = Some resource \<and> PStr (ustr ''*'') \<notin> set (as_list resource) \<and>
           (\<forall>acts b. map_of d (ustr ''Action'') = Some acts \<longrightarrow> PStr b \<in> set (as_list acts) \<longrightarrow>
              b \<notin> set (overly_permissive_actions PolicyValidator_init)))
        \<longrightarrow> valid report)"
proof -
  let ?self = PolicyValidator_init
  let ?r0 = "if map_of kvs (ustr ''Version'') = None
             then \<lparr> valid = False, issues = [missing_version_issue],
                    recommendations = [missing_version_recommendation] \<rparr>
             else \<lparr> valid = True, issues = [], recommendations = [] \<rparr>"
  have "validate_policy_try lim ?self policy_json = validate_decoded ?self (PDict kvs)"
    using assms(1) by (rule validate_policy_via_decoded)
  with assms(2,3) have run: "analyze_statements ?self 0 (as_list statements) ?r0 = Inr report"
    by (simp add: validate_decoded_dict)
  have issue: "ustr ''Statement '' @ str_nat (k + 1) @ ustr '' contains sensitive action: '' @ a
      = sensitive_issue k a"
    by (simp add: sensitive_issue_def)
  have recommendation:
    "ustr ''Review if '' @ [0x27] @ a @ [0x27] @ ustr '' is absolutely necessary and consider adding conditions''
      = sensitive_recommendation a"
    by (simp add: sensitive_recommendation_def)
  show ?thesis
    unfolding issue recommendation
  proof (intro conjI allI impI ballI)
    show "validate_policy lim ?self policy_json = report"
      using assms(3) by (rule validate_policy_Inr)
    show "sensitive_actions ?self =
        [ustr ''iam:CreateUser'', ustr ''iam:CreateRole'', ustr ''iam:PutRolePolicy'',
         ustr ''iam:AttachRolePolicy'', ustr ''iam:AttachUserPolicy'', ustr ''s3:PutBucketPolicy'',
         ustr ''ec2:RunInstances'', ustr ''lambda:CreateFunction'', ustr ''kms:Decrypt'',
         ustr ''secretsmanager:GetSecretValue'']"
      by (simp add: PolicyValidator_init_def)
    show "sensitive_issue k a \<in> set (issues report)"
      using analyze_statements_sensitive [OF run assms(4,5,6,7,8)] by simp
    show "sensitive_recommendation a \<in> set (recommendations report)"
      using analyze_statements_sensitive [OF run assms(4,5,6,7,8)] by simp
    show "foldl (\<lambda>n c. 10 * n + (c - 0x30)) 0 (str_nat (k + 1)) = k + 1"
      by (rule str_nat_value)
  next
    fix c
    assume "c \<in> set (str_nat (k + 1))"
    then show "0x30 \<le> c" and "c \<le> 0x39"
      using str_nat_digits by blast+
  next
    fix i actions r'
    show "valid (check_sensitive ?self i actions r') = valid r'"
      by (rule check_sensitive_valid)
  next
    assume clean: "map_of kvs (ustr ''Version'') \<noteq> None \<and>
        (\<forall>s \<in> set (as_list statements). \<exists>d resource. s = PDict d \<and>
           map_of d (ustr ''Resource'') = Some resource \<and> PStr (ustr ''*'') \<notin> set (as_list resource) \<and>
           (\<forall>acts b. map_of d (ustr ''Action'') = Some acts \<longrightarrow> PStr b \<in> set (as_list acts) \<longrightarrow>
              b \<notin> set (overly_permissive_actions ?self)))"
    have "valid report = valid ?r0"
      using run
    proof (rule analyze_statements_valid_kept)
      fix s
      assume "s \<in> set (as_list statements)"
      with clean show "\<exists>kvs resource. s = PDict kvs \<and>
           map_of kvs (ustr ''Resource'') = Some resource \<and> PStr (ustr ''*'') \<notin> set (as_list resource) \<and>
           (\<forall>action a. map_of kvs (ustr ''Action'') = Some action \<longrightarrow> PStr a \<in> set (as_list action) \<longrightarrow>
              a \<notin> set (overly_permissive_actions ?self))"
        by blast
    qed
    with clean show "valid report" by simp
  qed
qed

theorem C6_sensitive_action_not_blocking_witness:
  \<open>ustr ''Statement 1 contains sensitive action: iam:CreateUser'' \<in> set (issues (validate_policy default_limits PolicyValidator_init
      (PStr (ustr ''{"Version":"2012-10-17","Statement":{"Action":["iam:CreateUser","iam:GetUser"],"Resource":"arn:aws:iam::1:user/u"}}''))))
   \<and> ustr ''Review if '' @ [0x27] @ ustr ''iam:CreateUser'' @ [0x27] @
        ustr '' is absolutely necessary and consider adding conditions'' \<in> set (recommendations (validate_policy default_limits PolicyValidator_init
      (PStr (ustr ''{"Version":"2012-10-17","Statement":{"Action":["iam:CreateUser","iam:GetUser"],"Resource":"arn:aws:iam::1:user/u"}}''))))
   \<and> valid (validate_policy default_limits PolicyValidator_init
      (PStr (ustr ''{"Version":"2012-10-17","Statement":{"Action":["iam:CreateUser","iam:GetUser"],"Resource":"arn:aws:iam::1:user/u"}}'')))\<close>
proof -
  let ?text = \<open>ustr ''{"Version":"2012-10-17","Statement":{"Action":["iam:CreateUser","iam:GetUser"],"Resource":"arn:aws:iam::1:user/u"}}''\<close>
  let ?acts = "PList [PStr (ustr ''iam:CreateUser''), PStr (ustr ''iam:GetUser'')]"
  let ?s0 = "[(ustr ''Action'', ?acts), (ustr ''Resource'', PStr (ustr ''arn:aws:iam::1:user/u''))]"
  let ?kvs = "[(ustr ''Version'', PStr (ustr ''2012-10-17'')), (ustr ''Statement'', PDict ?s0)]"
  let ?report = "validate_policy default_limits PolicyValidator_init (PStr ?text)"
  have h1: "parse_policy_json default_limits (PStr ?text) = Inr (PDict ?kvs)"
    by code_simp
  have h2: "map_of ?kvs (ustr ''Statement'') = Some (PDict ?s0)"
    by code_simp
  have h3: "validate_policy_try default_limits PolicyValidator_init (PStr ?text) = Inr ?report"
    by code_simp
  have h4: "0 < length (as_list (PDict ?s0))"
    by simp
  have h5: "as_list (PDict ?s0) ! 0 = PDict ?s0"
    by simp
  have h6: "map_of ?s0 (ustr ''Action'') = Some ?acts"
    by simp
  have h7: "PStr (ustr ''iam:CreateUser'') \<in> set (as_list ?acts)"
    by simp
  have h8: "ustr ''iam:CreateUser'' \<in> set (sensitive_actions PolicyValidator_init)"
    by (simp add: PolicyValidator_init_def)
  have res: "map_of ?s0 (ustr ''Resource'') = Some (PStr (ustr ''arn:aws:iam::1:user/u''))"
    by code_simp
  have nowild: "PStr (ustr ''*'') \<notin> set (as_list (PStr (ustr ''arn:aws:iam::1:user/u'')))"
    by code_simp
  have noperm: "ustr ''iam:CreateUser'' \<notin> set (overly_permissive_actions PolicyValidator_init)"
    "ustr ''iam:GetUser'' \<notin> set (overly_permissive_actions PolicyValidator_init)"
    by code_simp+
  have version: "map_of ?kvs (ustr ''Version'') \<noteq> None"
    by simp
  have clean: "\<forall>s \<in> set (as_list (PDict ?s0)). \<exists>d resource. s = PDict d \<and>
           map_of d (ustr ''Resource'') = Some resource \<and> PStr (ustr ''*'') \<notin> set (as_list resource) \<and>
           (\<forall>acts b. map_of d (ustr ''Action'') = Some acts \<longrightarrow> PStr b \<in> set (as_list acts) \<longrightarrow>
              b \<notin> set (overly_permissive_actions PolicyValidator_init))"
    using res nowild noperm h6 by auto
  have t: "ustr ''Statement '' @ str_nat (0 + 1) @ ustr '' contains sensitive action: '' @ ustr ''iam:CreateUser''
      = ustr ''Statement 1 contains sensitive action: iam:CreateUser''"
    by (simp add: ustr_def str_nat.simps)
  from C6_sensitive_action_not_blocking [OF h1 h2 h3 h4 h5 h6 h7 h8] version clean
  have "ustr ''Statement '' @ str_nat (0 + 1) @ ustr '' contains sensitive action: '' @ ustr ''iam:CreateUser''
      \<in> set (issues ?report)
    \<and> ustr ''Review if '' @ [0x27] @ ustr ''iam:CreateUser'' @ [0x27] @
        ustr '' is absolutely necessary and consider adding conditions'' \<in> set (recommendations ?report)
    \<and> valid ?report"
    by blast
  then show ?thesis
    unfolding t by blast
qed

section \<open>Exceptions never leave \<^verbatim>\<open>validate_policy\<close>\<close>

text \<open>
  Claim C7. \<^verbatim>\<open>validate_policy\<close> returns a report for every argument: when the \<^verbatim>\<open>try\<close>
  block ends normally the report is the one it built, and every exception it raises is
  turned into a report with \<^verbatim>\<open>valid = False\<close>, exactly one issue and exactly one
  recommendation. In particular, when the argument is a text on which \<^verbatim>\<open>json.loads\<close>
  raises \<^verbatim>\<open>JSONDecodeError\<close>, the report is \<^verbatim>\<open>valid = False\<close> with the one issue
  \<^verbatim>\<open>Invalid JSON format\<close> and the one recommendation \<^verbatim>\<open>Check the policy syntax for errors\<close>;
  when \<^verbatim>\<open>json.loads\<close> raises another exception (an integer literal over the digit limit,
  nesting beyond the recursion limit), the one issue is \<^verbatim>\<open>Validation error: \<close> followed by
  the text of the exception and the one recommendation is \<^verbatim>\<open>Review the policy structure\<close>.
  In both cases no statement is analysed: the report has nothing else.
\<close>

theorem C7_validate_policy_never_raises:
  "(\<forall>r. validate_policy_try lim self policy_json = Inr r \<longrightarrow> validate_policy lim self policy_json = r)
   \<and> (\<forall>e. validate_policy_try lim self policy_json = Inl e \<longrightarrow>
         \<not> valid (validate_policy lim self policy_json) \<and>
         length (issues (validate_policy lim self policy_json)) = 1 \<and>
         length (recommendations (validate_policy lim self policy_json)) = 1)
   \<and> (json_loads lim s = Inl JSONDecodeError \<longrightarrow>
         validate_policy lim self (PStr s) =
           \<lparr> valid = False, issues = [ustr ''Invalid JSON format''],
             recommendations = [ustr ''Check the policy syntax for errors''] \<rparr>)
   \<and> (\<forall>e. json_loads lim s = Inl e \<longrightarrow>
         validate_policy lim self (PStr s) =
           (case e of
              JSONDecodeError \<Rightarrow>
                \<lparr> valid = False, issues = [ustr ''Invalid JSON format''],
                  recommendations = [ustr ''Check the policy syntax for errors''] \<rparr>
            | ValueError msg \<Rightarrow>
                \<lparr> valid = False, issues = [ustr ''Validation error: '' @ msg],
                  recommendations = [ustr ''Review the policy structure''] \<rparr>
            | RecursionError msg \<Rightarrow>
                \<lparr> valid = False, issues = [ustr ''Validation error: '' @ msg],
                  recommendations = [ustr ''Review the policy structure''] \<rparr>
            | TypeError msg \<Rightarrow>
                \<lparr> valid = False, issues = [ustr ''Validation error: '' @ msg],
                  recommendations = [ustr ''Review the policy structure''] \<rparr>
            | KeyError msg \<Rightarrow>
                \<lparr> valid = False, issues = [ustr ''Validation error: '' @ msg],
                  recommendations = [ustr ''Review the policy structure''] \<rparr>) \<and>
         \<not> valid (validate_policy lim self (PStr s)) \<and>
         length (issues (validate_policy lim self (PStr s))) = 1 \<and>
         length (recommendations (validate_policy lim self (PStr s))) = 1)"
proof (intro conjI allI impI)
  fix r
  assume "validate_policy_try lim self policy_json = Inr r"
  then show "validate_policy lim self policy_json = r"
    by (rule validate_policy_Inr)
next
  fix e
  assume e: "validate_policy_try lim self policy_json = Inl e"
  show "\<not> valid (validate_policy lim self policy_json)"
    using e by (cases e) (simp_all add: validate_policy_def)
  show "length (issues (validate_policy lim self policy_json)) = 1"
    using e by (cases e) (simp_all add: validate_policy_def)
  show "length (recommendations (validate_policy lim self policy_json)) = 1"
    using e by (cases e) (simp_all add: validate_policy_def)
next
  assume "json_loads lim s = Inl JSONDecodeError"
  then have "validate_policy_try lim self (PStr s) = Inl JSONDecodeError"
    by (simp add: validate_policy_try_def)
  then show "validate_policy lim self (PStr s) =
      \<lparr> valid = False, issues = [ustr ''Invalid JSON format''],
        recommendations = [ustr ''Check the policy syntax for errors''] \<rparr>"
    by (simp add: validate_policy_def)
next
  fix e
  assume "json_loads lim s = Inl e"
  then have t: "validate_policy_try lim self (PStr s) = Inl e"
    by (simp add: validate_policy_try_def)
  show "validate_policy lim self (PStr s) =
           (case e of
              JSONDecodeError \<Rightarrow>
                \<lparr> valid = False, issues = [ustr ''Invalid JSON format''],
                  recommendations = [ustr ''Check the policy syntax for errors''] \<rparr>
            | ValueError msg \<Rightarrow>
                \<lparr> valid = False, issues = [ustr ''Validation error: '' @ msg],
                  recommendations = [ustr ''Review the policy structure''] \<rparr>
            | RecursionError msg \<Rightarrow>
                \<lparr> valid = False, issues = [ustr ''Validation error: '' @ msg],
                  recommendations = [ustr ''Review the policy structure''] \<rparr>
            | TypeError msg \<Rightarrow>
                \<lparr> valid = False, issues = [ustr ''Validation error: '' @ msg],
                  recommendations = [ustr ''Review the policy structure''] \<rparr>
            | KeyError msg \<Rightarrow>
                \<lparr> valid = False, issues = [ustr ''Validation error: '' @ msg],
                  recommendations = [ustr ''Review the policy structure''] \<rparr>)"
    using t by (cases e) (simp_all add: validate_policy_def)
  show "\<not> valid (validate_policy lim self (PStr s))"
    using t by (cases e) (simp_all add: validate_policy_def)
  show "length (issues (validate_policy lim self (PStr s))) = 1"
    using t by (cases e) (simp_all add: validate_policy_def)
  show "length (recommendations (validate_policy lim self (PStr s))) = 1"
    using t by (cases e) (simp_all add: validate_policy_def)
qed

theorem C7_validate_policy_never_raises_witness:
  \<open>json_loads default_limits (ustr ''{"Statement": [}'') = Inl JSONDecodeError
   \<and> validate_policy_try default_limits PolicyValidator_init (PStr (ustr ''{"Statement": [}'')) =
       Inl JSONDecodeError
   \<and> validate_policy default_limits PolicyValidator_init (PStr (ustr ''{"Statement": [}'')) =
       \<lparr> valid = False, issues = [ustr ''Invalid JSON format''],
         recommendations = [ustr ''Check the policy syntax for errors''] \<rparr>
   \<and> length (issues (validate_policy default_limits PolicyValidator_init (PStr (ustr ''{"Statement": [}'')))) = 1
   \<and> length (recommendations (validate_policy default_limits PolicyValidator_init
        (PStr (ustr ''{"Statement": [}'')))) = 1
   \<and> json_loads \<lparr> int_max_str_digits = 4300, recursion_budget = 2 \<rparr> (ustr ''[[[1]]]'') =
       Inl (RecursionError
         (ustr ''maximum recursion depth exceeded while decoding a JSON array from a unicode string''))
   \<and> validate_policy \<lparr> int_max_str_digits = 4300, recursion_budget = 2 \<rparr> PolicyValidator_init
        (PStr (ustr ''[[[1]]]'')) =
       \<lparr> valid = False,
         issues = [ustr ''Validation error: maximum recursion depth exceeded while decoding a JSON array from a unicode string''],
         recommendations = [ustr ''Review the policy structure''] \<rparr>
   \<and> json_loads \<lparr> int_max_str_digits = 3, recursion_budget = 900 \<rparr> (ustr ''[1234]'') =
       Inl (ValueError
         (ustr ''Exceeds the limit (3 digits) for integer string conversion: value has 4 digits; use sys.set_int_max_str_digits() to increase the limit''))
   \<and> validate_policy \<lparr> int_max_str_digits = 3, recursion_budget = 900 \<rparr> PolicyValidator_init
        (PStr (ustr ''[1234]'')) =
       \<lparr> valid = False,
         issues = [ustr ''Validation error: Exceeds the limit (3 digits) for integer string conversion: value has 4 digits; use sys.set_int_max_str_digits() to increase the limit''],
         recommendations = [ustr ''Review the policy structure''] \<rparr>
   \<and> validate_policy_try default_limits PolicyValidator_init (PInt 5) =
       Inl (TypeError (ustr ''argument of type '' @ [0x27] @ ustr ''int'' @ [0x27] @ ustr '' is not iterable''))
   \<and> \<not> valid (validate_policy default_limits PolicyValidator_init (PInt 5))
   \<and> length (issues (validate_policy default_limits PolicyValidator_init (PInt 5))) = 1
   \<and> validate_policy_try default_limits PolicyValidator_init (PDict []) =
       Inr (validate_policy default_limits PolicyValidator_init (PDict []))\<close>
proof -
  let ?deep = "\<lparr> int_max_str_digits = 4300, recursion_budget = 2 \<rparr>"
  let ?few = "\<lparr> int_max_str_digits = 3, recursion_budget = 900 \<rparr>"
  have h1: \<open>json_loads default_limits (ustr ''{"Statement": [}'') = Inl JSONDecodeError\<close>
    by code_simp
  have h2: \<open>validate_policy_try default_limits PolicyValidator_init (PStr (ustr ''{"Statement": [}'')) =
      Inl JSONDecodeError\<close>
    by code_simp
  have h3: "validate_policy_try default_limits PolicyValidator_init (PInt 5) =
       Inl (TypeError (ustr ''argument of type '' @ [0x27] @ ustr ''int'' @ [0x27] @ ustr '' is not iterable''))"
    by code_simp
  have h4: "validate_policy_try default_limits PolicyValidator_init (PDict []) =
       Inr \<lparr> valid = False, issues = [missing_version_issue, missing_statement_issue],
             recommendations = [missing_version_recommendation] \<rparr>"
    by code_simp
  have h5: "json_loads ?deep (ustr ''[[[1]]]'') =
       Inl (RecursionError
         (ustr ''maximum recursion depth exceeded while decoding a JSON array from a unicode string''))"
    by code_simp
  have h6: "json_loads ?few (ustr ''[1234]'') =
       Inl (ValueError
         (ustr ''Exceeds the limit (3 digits) for integer string conversion: value has 4 digits; use sys.set_int_max_str_digits() to increase the limit''))"
    by code_simp
  have m5: "ustr ''Validation error: '' @
      ustr ''maximum recursion depth exceeded while decoding a JSON array from a unicode string'' =
      ustr ''Validation error: maximum recursion depth exceeded while decoding a JSON array from a unicode string''"
    by (simp add: ustr_def)
  have m6: "ustr ''Validation error: '' @
      ustr ''Exceeds the limit (3 digits) for integer string conversion: value has 4 digits; use sys.set_int_max_str_digits() to increase the limit'' =
      ustr ''Validation error: Exceeds the limit (3 digits) for integer string conversion: value has 4 digits; use sys.set_int_max_str_digits() to increase the limit''"
    by (simp add: ustr_def)
  note a = C7_validate_policy_never_raises
    [of default_limits PolicyValidator_init \<open>PStr (ustr ''{"Statement": [}'')\<close> \<open>ustr ''{"Statement": [}''\<close>]
  note b = C7_validate_policy_never_raises [of default_limits PolicyValidator_init "PInt 5" "[]"]
  note c = C7_validate_policy_never_raises [of default_limits PolicyValidator_init "PDict []" "[]"]
  note d = C7_validate_policy_never_raises [of ?deep PolicyValidator_init "PDict []" "ustr ''[[[1]]]''"]
  note e = C7_validate_policy_never_raises [of ?few PolicyValidator_init "PDict []" "ustr ''[1234]''"]
  have A: \<open>validate_policy default_limits PolicyValidator_init (PStr (ustr ''{"Statement": [}'')) =
       \<lparr> valid = False, issues = [ustr ''Invalid JSON format''],
         recommendations = [ustr ''Check the policy syntax for errors''] \<rparr>
     \<and> length (issues (validate_policy default_limits PolicyValidator_init (PStr (ustr ''{"Statement": [}'')))) = 1
     \<and> length (recommendations (validate_policy default_limits PolicyValidator_init
        (PStr (ustr ''{"Statement": [}'')))) = 1\<close>
    using a h1 h2 by simp
  have B: "\<not> valid (validate_policy default_limits PolicyValidator_init (PInt 5))
     \<and> length (issues (validate_policy default_limits PolicyValidator_init (PInt 5))) = 1"
    using b h3 by simp
  have C: "validate_policy_try default_limits PolicyValidator_init (PDict []) =
       Inr (validate_policy default_limits PolicyValidator_init (PDict []))"
    using c h4 by simp
  have D: "validate_policy ?deep PolicyValidator_init (PStr (ustr ''[[[1]]]'')) =
       \<lparr> valid = False,
         issues = [ustr ''Validation error: maximum recursion depth exceeded while decoding a JSON array from a unicode string''],
         recommendations = [ustr ''Review the policy structure''] \<rparr>"
    using d h5 unfolding m5 [symmetric] by simp
  have E: "validate_policy ?few PolicyValidator_init (PStr (ustr ''[1234]'')) =
       \<lparr> valid = False,
         issues = [ustr ''Validation error: Exceeds the limit (3 digits) for integer string conversion: value has 4 digits; use sys.set_int_max_str_digits() to increase the limit''],
         recommendations = [ustr ''Review the policy structure''] \<rparr>"
    using e h6 unfolding m6 [symmetric] by simp
  from h1 h2 h3 h5 h6 A B C D E show ?thesis
    by blast
qed

section \<open>Two calls with the same argument\<close>

text \<open>
  Claim C8. Take a store in which \<open>self\<close> is the address of an instance, with its two
  lists, and \<open>arg\<close> the address of the argument. Call \<^verbatim>\<open>validate_policy\<close>, and call it again
  with the same instance and the same argument in the store the first call left. The two
  reports are equal: the same \<^verbatim>\<open>valid\<close> flag, the same issues in the same order, the same
  recommendations in the same order; each is the report that the function of the previous
  sections computes from the two lists and the argument. The two reports are different
  objects, and the second call does not change the first report. Neither call changes an
  object that was in the store before it: the instance, its lists and the argument are
  as they were.
\<close>

theorem C8_validate_policy_idempotent:
  assumes "self < length h" and "h ! self = InstanceCell pa sa"
    and "pa < length h" and "h ! pa = ListCell permissive"
    and "sa < length h" and "h ! sa = ListCell sensitive"
    and "arg < length h" and "h ! arg = ValueCell policy_json"
    and "validate_policy_heap lim self arg h = (r1, h1)"
    and "validate_policy_heap lim self arg h1 = (r2, h2)"
  shows "report_at h2 r2 = report_at h1 r1
    \<and> valid (report_at h2 r2) = valid (report_at h1 r1)
    \<and> issues (report_at h2 r2) = issues (report_at h1 r1)
    \<and> recommendations (report_at h2 r2) = recommendations (report_at h1 r1)
    \<and> report_at h1 r1 =
        validate_policy lim \<lparr> overly_permissive_actions = permissive, sensitive_actions = sensitive \<rparr>
          policy_json
    \<and> report_at h2 r1 = report_at h1 r1
    \<and> r1 \<noteq> r2
    \<and> length h \<le> length h1 \<and> length h1 \<le> length h2
    \<and> (\<forall>b < length h. h1 ! b = h ! b \<and> h2 ! b = h ! b)
    \<and> (\<forall>b < length h1. h2 ! b = h1 ! b)"
proof -
  let ?self = "\<lparr> overly_permissive_actions = permissive, sensitive_actions = sensitive \<rparr>"
  have iok: "instance_ok h (length h) self"
    unfolding instance_ok_def using assms(1-6) by auto
  have inst: "instance_at h self = ?self"
    using assms(1-6)
    by (simp add: instance_at_def attr_overly_permissive_actions_def attr_sensitive_actions_def
        cell_at_def list_at_def)
  have arg: "value_at h arg = policy_json"
    using assms(7,8) by (simp add: value_at_def cell_at_def)
  note first = validate_policy_heap_refines [OF iok assms(9)]
  from first(1) have len1: "length h \<le> length h1"
    by (simp add: unchanged_below_def)
  have iok1: "instance_ok h1 (length h1) self"
    using iok first(1) len1 by (rule instance_ok_later) simp
  note second = validate_policy_heap_refines [OF iok1 assms(10)]
  from second(1) have len2: "length h1 \<le> length h2"
    by (simp add: unchanged_below_def)
  have inst1: "instance_at h1 self = ?self"
    using instance_at_unchanged [OF iok first(1)] inst by simp
  have arg1: "value_at h1 arg = policy_json"
    using value_at_unchanged [OF assms(7) le_refl first(1)] arg by simp
  have eq1: "report_at h1 r1 = validate_policy lim ?self policy_json"
    using first(3) inst arg by simp
  have eq2: "report_at h2 r2 = validate_policy lim ?self policy_json"
    using second(3) inst1 arg1 by simp
  have kept: "report_at h2 r1 = report_at h1 r1"
    using first(2) second(1) by (rule report_at_unchanged)
  have "r1 < length h1"
    using first(2) by (simp add: results_ok_def)
  moreover have "length h1 \<le> r2"
    using second(2) by (simp add: results_ok_def)
  ultimately have distinct: "r1 \<noteq> r2"
    by simp
  have below1: "\<forall>b < length h. h1 ! b = h ! b"
    using first(1) by (simp add: unchanged_below_def)
  have below2: "\<forall>b < length h1. h2 ! b = h1 ! b"
    using second(1) by (simp add: unchanged_below_def)
  have below: "\<forall>b < length h. h1 ! b = h ! b \<and> h2 ! b = h ! b"
    using below1 below2 len1 by auto
  from eq1 eq2 kept distinct len1 len2 below below2 show ?thesis
    by simp
qed

theorem C8_validate_policy_idempotent_witness:
  \<open>report_at
      (snd (validate_policy_heap default_limits 2 3
        (snd (validate_policy_heap default_limits 2 3
          (snd (alloc (ValueCell (PStr (ustr ''{"Statement":{"Action":"*"}}''))) (snd (PolicyValidator_new []))))))))
      (fst (validate_policy_heap default_limits 2 3
        (snd (validate_policy_heap default_limits 2 3
          (snd (alloc (ValueCell (PStr (ustr ''{"Statement":{"Action":"*"}}''))) (snd (PolicyValidator_new []))))))))
    = report_at
      (snd (validate_policy_heap default_limits 2 3
          (snd (alloc (ValueCell (PStr (ustr ''{"Statement":{"Action":"*"}}''))) (snd (PolicyValidator_new []))))))
      (fst (validate_policy_heap default_limits 2 3
          (snd (alloc (ValueCell (PStr (ustr ''{"Statement":{"Action":"*"}}''))) (snd (PolicyValidator_new []))))))
   \<and> report_at
      (snd (validate_policy_heap default_limits 2 3
          (snd (alloc (ValueCell (PStr (ustr ''{"Statement":{"Action":"*"}}''))) (snd (PolicyValidator_new []))))))
      (fst (validate_policy_heap default_limits 2 3
          (snd (alloc (ValueCell (PStr (ustr ''{"Statement":{"Action":"*"}}''))) (snd (PolicyValidator_new []))))))
    = validate_policy default_limits PolicyValidator_init (PStr (ustr ''{"Statement":{"Action":"*"}}''))
   \<and> validate_policy default_limits PolicyValidator_init (PStr (ustr ''{"Statement":{"Action":"*"}}'')) =
      \<lparr> valid = False,
        issues = [ustr ''Missing '' @ [0x27] @ ustr ''Version'' @ [0x27] @ ustr '' field in policy'',
                  ustr ''Statement 1 contains overly permissive action: *'',
                  ustr ''Statement 1 is missing '' @ [0x27] @ ustr ''Resource'' @ [0x27] @ ustr '' field''],
        recommendations = recommendations (validate_policy default_limits PolicyValidator_init
          (PStr (ustr ''{"Statement":{"Action":"*"}}''))) \<rparr>
   \<and> fst (validate_policy_heap default_limits 2 3
          (snd (alloc (ValueCell (PStr (ustr ''{"Statement":{"Action":"*"}}''))) (snd (PolicyValidator_new []))))) \<noteq>
     fst (validate_policy_heap default_limits 2 3
        (snd (validate_policy_heap default_limits 2 3
          (snd (alloc (ValueCell (PStr (ustr ''{"Statement":{"Action":"*"}}''))) (snd (PolicyValidator_new [])))))))\<close>
proof -
  let ?policy = \<open>PStr (ustr ''{"Statement":{"Action":"*"}}'')\<close>
  let ?h = "snd (alloc (ValueCell ?policy) (snd (PolicyValidator_new [])))"
  let ?c1 = "validate_policy_heap default_limits 2 3 ?h"
  let ?c2 = "validate_policy_heap default_limits 2 3 (snd ?c1)"
  have h: "?h = [ListCell (overly_permissive_actions PolicyValidator_init),
                 ListCell (sensitive_actions PolicyValidator_init),
                 InstanceCell 0 1, ValueCell ?policy]"
    by (simp add: PolicyValidator_new_def alloc_def)
  have a1: "2 < length ?h" and a2: "?h ! 2 = InstanceCell 0 1"
    and a3: "0 < length ?h" and a4: "?h ! 0 = ListCell (overly_permissive_actions PolicyValidator_init)"
    and a5: "1 < length ?h" and a6: "?h ! 1 = ListCell (sensitive_actions PolicyValidator_init)"
    and a7: "3 < length ?h" and a8: "?h ! 3 = ValueCell ?policy"
    unfolding h by simp_all
  have c1: "?c1 = (fst ?c1, snd ?c1)" and c2: "?c2 = (fst ?c2, snd ?c2)"
    by simp_all
  have self: "\<lparr> overly_permissive_actions = overly_permissive_actions PolicyValidator_init,
                sensitive_actions = sensitive_actions PolicyValidator_init \<rparr> = PolicyValidator_init"
    by simp
  have report: \<open>validate_policy default_limits PolicyValidator_init ?policy =
      \<lparr> valid = False,
        issues = [ustr ''Missing '' @ [0x27] @ ustr ''Version'' @ [0x27] @ ustr '' field in policy'',
                  ustr ''Statement 1 contains overly permissive action: *'',
                  ustr ''Statement 1 is missing '' @ [0x27] @ ustr ''Resource'' @ [0x27] @ ustr '' field''],
        recommendations = recommendations (validate_policy default_limits PolicyValidator_init ?policy) \<rparr>\<close>
    by code_simp
  from C8_validate_policy_idempotent [OF a1 a2 a3 a4 a5 a6 a7 a8 c1 c2]
  have "report_at (snd ?c2) (fst ?c2) = report_at (snd ?c1) (fst ?c1)
    \<and> report_at (snd ?c1) (fst ?c1) = validate_policy default_limits PolicyValidator_init ?policy
    \<and> fst ?c1 \<noteq> fst ?c2"
    unfolding self by blast
  with report show ?thesis
    by blast
qed

section \<open>An invalid report has an issue\<close>

text \<open>
  Claim C9. Whenever the report of \<^verbatim>\<open>validate_policy\<close> has \<^verbatim>\<open>valid = False\<close>, its list of
  issues is not empty, on the normal path and on both exception paths. The converse
  fails: the policy with the one action \<^verbatim>\<open>kms:Decrypt\<close> on a named resource, with a
  condition, is reported valid with one issue.
\<close>

theorem C9_invalid_report_has_issue:
  \<open>(\<not> valid (validate_policy lim self policy_json) \<longrightarrow> issues (validate_policy lim self policy_json) \<noteq> [])
   \<and> valid (validate_policy default_limits PolicyValidator_init
        (PStr (ustr ''{"Version":"2012-10-17","Statement":[{"Effect":"Allow","Action":"kms:Decrypt","Resource":"arn:aws:kms:::key/k","Condition":{}}]}'')))
   \<and> issues (validate_policy default_limits PolicyValidator_init
        (PStr (ustr ''{"Version":"2012-10-17","Statement":[{"Effect":"Allow","Action":"kms:Decrypt","Resource":"arn:aws:kms:::key/k","Condition":{}}]}''))) =
       [sensitive_issue 0 (ustr ''kms:Decrypt'')]
   \<and> sensitive_issue 0 (ustr ''kms:Decrypt'') = ustr ''Statement 1 contains sensitive action: kms:Decrypt''\<close>
proof (intro conjI impI)
  show "issues (validate_policy lim self policy_json) \<noteq> []"
    if "\<not> valid (validate_policy lim self policy_json)"
  proof (cases "validate_policy_try lim self policy_json")
    case (Inl e)
    then show ?thesis
      by (cases e) (simp_all add: validate_policy_def)
  next
    case (Inr r)
    then obtain policy where "validate_decoded self policy = Inr r"
      by (auto simp add: validate_policy_try_def and_then_eq_Inr)
    then have "valid r \<or> issues r \<noteq> []"
      by (rule validate_decoded_invariant)
    moreover from Inr have "validate_policy lim self policy_json = r"
      by (rule validate_policy_Inr)
    ultimately show ?thesis using that by simp
  qed
  show \<open>valid (validate_policy default_limits PolicyValidator_init
        (PStr (ustr ''{"Version":"2012-10-17","Statement":[{"Effect":"Allow","Action":"kms:Decrypt","Resource":"arn:aws:kms:::key/k","Condition":{}}]}'')))\<close>
    by code_simp
  show \<open>issues (validate_policy default_limits PolicyValidator_init
        (PStr (ustr ''{"Version":"2012-10-17","Statement":[{"Effect":"Allow","Action":"kms:Decrypt","Resource":"arn:aws:kms:::key/k","Condition":{}}]}''))) =
       [sensitive_issue 0 (ustr ''kms:Decrypt'')]\<close>
    by code_simp
  show "sensitive_issue 0 (ustr ''kms:Decrypt'') = ustr ''Statement 1 contains sensitive action: kms:Decrypt''"
    by code_simp
qed

theorem C9_invalid_report_has_issue_witness:
  \<open>\<not> valid (validate_policy default_limits PolicyValidator_init
      (PStr (ustr ''{"Version":"2012-10-17","Statement":{"Action":"*"}}'')))
   \<and> issues (validate_policy default_limits PolicyValidator_init
      (PStr (ustr ''{"Version":"2012-10-17","Statement":{"Action":"*"}}''))) \<noteq> []\<close>
proof -
  have h: \<open>\<not> valid (validate_policy default_limits PolicyValidator_init
      (PStr (ustr ''{"Version":"2012-10-17","Statement":{"Action":"*"}}'')))\<close>
    by code_simp
  from C9_invalid_report_has_issue
    [of default_limits PolicyValidator_init \<open>PStr (ustr ''{"Version":"2012-10-17","Statement":{"Action":"*"}}'')\<close>] h
  show ?thesis by blast
qed

section \<open>The extractor returns text that decodes\<close>

text \<open>
  Claim C10. For every input text, \<^verbatim>\<open>extract_policy_from_text\<close> returns \<^verbatim>\<open>None\<close> or a string
  that \<^verbatim>\<open>json.loads\<close> decodes without error: the string returned is the one that was
  decoded before the \<^verbatim>\<open>return\<close>.
\<close>

theorem C10_extracted_text_decodes:
  assumes "extract_policy_from_text lim text = Some json_str"
  shows "\<exists>obj. json_loads lim json_str = Inr obj"
proof -
  from assms have t: "extract_policy_try lim text = Inr (Some json_str)"
    by (auto simp add: extract_policy_from_text_def split: sum.splits)
  show ?thesis
  proof (cases "re_search fenced_pattern text")
    case (Some m)
    with t have "and_then (json_loads lim (strip (group1 text m))) (\<lambda>_. Inr (Some (strip (group1 text m))))
        = Inr (Some json_str)"
      by (simp add: extract_policy_try_def Let_def)
    then show ?thesis
      by (auto simp add: and_then_eq_Inr)
  next
    case None
    note fenced = None
    show ?thesis
    proof (cases "re_search brace_pattern text")
      case None
      with fenced t show ?thesis
        by (simp add: extract_policy_try_def)
    next
      case (Some m)
      with fenced t have "and_then (json_loads lim (strip (group0 text m))) (\<lambda>_. Inr (Some (strip (group0 text m))))
          = Inr (Some json_str)"
        by (simp add: extract_policy_try_def Let_def)
      then show ?thesis
        by (auto simp add: and_then_eq_Inr)
    qed
  qed
qed

theorem C10_extracted_text_decodes_witness:
  \<open>extract_policy_from_text default_limits
      (ustr ''Here is the policy: ```json'' @ [0x0A] @ ustr ''{"Version": "2012-10-17", "Statement": []}'' @
         [0x0A] @ ustr ''``` Use it with care.'') =
      Some (ustr ''{"Version": "2012-10-17", "Statement": []}'')
   \<and> (\<exists>obj. json_loads default_limits (ustr ''{"Version": "2012-10-17", "Statement": []}'') = Inr obj)\<close>
proof -
  have h: \<open>extract_policy_from_text default_limits
      (ustr ''Here is the policy: ```json'' @ [0x0A] @ ustr ''{"Version": "2012-10-17", "Statement": []}'' @
         [0x0A] @ ustr ''``` Use it with care.'') =
      Some (ustr ''{"Version": "2012-10-17", "Statement": []}'')\<close>
    by code_simp
  from C10_extracted_text_decodes [OF h] h show ?thesis by simp
qed

end
